theory Spec2Isabelle
  imports Complex_Main
begin

section \<open>JavaScript values as the VectorManager sees them\<close>

text \<open>
  Objects have an identity. \<open>Own n\<close> is the n-th object allocated by the manager's own
  code (the request items \<open>{value}\<close> of \<open>create\<close> and the \<open>new Error(...)\<close> objects),
  \<open>Env n\<close> an object allocated by the environment (the engine, the callers), and
  \<open>CallErr n\<close> the TypeError the runtime raises when the n-th engine call finds
  \<open>this._vectorize\<close> not callable.
\<close>

datatype objref = Env nat | Own nat | CallErr nat

text \<open>
  The values the code inspects: it tests truthiness, \<open>Array.isArray\<close>,
  \<open>instanceof Error\<close>, \<open>typeof value === 'object'\<close> and equality with
  \<open>null\<close>/\<open>undefined\<close>. Numbers carry a real (or NaN); an Error object carries its
  identity and its message.
\<close>

datatype jsval =
    JUndefined
  | JNull
  | JBool bool
  | JNum real
  | JNaN
  | JStr string
  | JSymbol string
  | JBigInt int
  | JArr "jsval list"
  | JObj "(string \<times> jsval) list"
  | JError objref string

fun truthy :: "jsval \<Rightarrow> bool" where
  "truthy JUndefined = False"
| "truthy JNull = False"
| "truthy (JBool b) = b"
| "truthy (JNum r) = (r \<noteq> 0)"
| "truthy JNaN = False"
| "truthy (JStr s) = (s \<noteq> [])"
| "truthy (JSymbol d) = True"
| "truthy (JBigInt n) = (n \<noteq> 0)"
| "truthy (JArr vs) = True"
| "truthy (JObj fs) = True"
| "truthy (JError r m) = True"

fun isArray :: "jsval \<Rightarrow> bool" where
  "isArray (JArr vs) = True"
| "isArray v = False"

fun instanceof_Error :: "jsval \<Rightarrow> bool" where
  "instanceof_Error (JError r m) = True"
| "instanceof_Error v = False"

fun typeof_object :: "jsval \<Rightarrow> bool" where
  "typeof_object JNull = True"
| "typeof_object (JArr vs) = True"
| "typeof_object (JObj fs) = True"
| "typeof_object (JError r m) = True"
| "typeof_object v = False"

text \<open>
  Exceptions: a TypeError of the runtime (\<open>WeakMap.set\<close> on a key that is not an
  object, \<open>.slice\<close> of \<open>undefined\<close>, the string form of a Symbol), or any value
  thrown.
\<close>

datatype js_error = TypeError | Throw jsval

text \<open>
  The two built-ins of the language the code calls on arbitrary values, taken as
  parameters. The string form of a value that is not a string (string concatenation,
  template literals, the message of \<open>new Error(x)\<close>) throws for a Symbol and for an
  object that has no primitive form. \<open>JSON.stringify\<close> throws for a cyclic object or a
  BigInt inside, and gives \<open>undefined\<close> (here \<open>None\<close>) when a \<open>toJSON\<close> does.
\<close>

record rt =
  ToString_other :: "jsval \<Rightarrow> js_error + string"
  JSON_stringify :: "jsval \<Rightarrow> js_error + string option"

definition ToString :: "rt \<Rightarrow> jsval \<Rightarrow> js_error + string" where
  "ToString R v = (case v of JStr s \<Rightarrow> Inr s | _ \<Rightarrow> ToString_other R v)"

definition convertToString :: "rt \<Rightarrow> jsval \<Rightarrow> js_error + string option" where
  "convertToString R v =
     (if v = JNull \<or> v = JUndefined then Inr (Some [])
      else if typeof_object v then JSON_stringify R v
      else (case ToString R v of Inl e \<Rightarrow> Inl e | Inr s \<Rightarrow> Inr (Some (s @ []))))"

section \<open>The manager\<close>

text \<open>A request item \<open>{value}\<close>: its object identity and its value.\<close>

record item =
  ident :: objref
  val :: jsval

text \<open>How a promise returned by the engine settles (\<open>Promise.allSettled\<close>).\<close>

datatype settled = Fulfilled jsval | Rejected jsval

text \<open>
  The engine is an asynchronous function, and it is handed the array of strings itself,
  not a copy. What a call does is given by how its promise settles (\<open>None\<close>: it never
  settles) and by the array as the engine has left it when the outcomes of the wave are
  distributed: the engine may have shortened, lengthened or rewritten it, or deleted
  elements of it, so the array is then a list of values with holes (\<open>None\<close>: no
  element at this index). The engine may be stateful, so both also depend on how many
  calls were made before this one. The engine is taken to use the array as an array and
  not to touch the manager itself.
\<close>

type_synonym engine = "nat \<Rightarrow> string list \<Rightarrow> settled option \<times> jsval option list"

text \<open>What the manager does to the outside, in order.\<close>

datatype callback = FastExpiry | WaitExpiry

datatype event =
    Invoke nat "string list"
  | AllSettled
  | ResultsSet objref jsval
  | SetTimeout nat callback int
  | ClearTimeout "nat option"
  | BatchVectorize "item list"

text \<open>
  The fields of the class; a private field \<open>_x\<close> is written \<open>priv_x\<close>. The
  character budget and the number of parallel requests are counts, hence natural numbers
  (the code never checks them; other values are outside this model); the two times are
  only subtracted and handed to \<open>setTimeout\<close>. \<open>priv_results\<close> is the WeakMap,
  keyed by the identity of the item; \<open>priv_timeout\<close> holds a timer handle or \<open>null\<close>.
\<close>

record manager =
  maximumBatchSize :: nat
  maximumParallelRequests :: nat
  fastQueueTime :: int
  waitQueueTime :: int
  priv_vectorize :: "engine option"
  priv_queue :: "item list"
  priv_results :: "objref \<rightharpoonup> jsval"
  priv_timeout :: "nat option"
  priv_processing :: bool

text \<open>
  The manager together with the state of the runtime its methods act on: the allocation
  counter \<open>heap\<close>, the number of engine calls made so far, the next timer handle, and
  the trace of what was done to the outside.
\<close>

record world = manager +
  heap :: nat
  calls :: nat
  timers :: nat
  trace :: "event list"

definition initialize :: world where
  "initialize =
     \<lparr> maximumBatchSize = 7168 * 4,
       maximumParallelRequests = 10,
       fastQueueTime = 10,
       waitQueueTime = 100,
       priv_vectorize = None,
       priv_queue = [],
       priv_results = Map.empty,
       priv_timeout = None,
       priv_processing = False,
       heap = 0,
       calls = 0,
       timers = 0,
       trace = [] \<rparr>"

section \<open>batchVectorize: splitting into batches\<close>

text \<open>
  The first loop of \<open>batchVectorize\<close>. \<open>batches\<close> starts as \<open>[[]]\<close> and only
  grows, so \<open>batches[n]\<close> with \<open>n = batches.length - 1\<close> is always its last batch.
\<close>

fun batch_loop :: "nat \<Rightarrow> string list \<Rightarrow> string list list \<times> nat \<Rightarrow> string list list \<times> nat" where
  "batch_loop M [] (batches, curBatchSize) = (batches, curBatchSize)"
| "batch_loop M (s # strValues) (batches, curBatchSize) =
     (let str = take M s;
          n = length batches - 1;
          cur = curBatchSize + length str
      in if cur > M
         then batch_loop M strValues (batches @ [[str]], length str)
         else batch_loop M strValues (batches[n := batches ! n @ [str]], cur))"

definition make_batches :: "nat \<Rightarrow> string list \<Rightarrow> string list list" where
  "make_batches M strValues = fst (batch_loop M strValues ([[]], 0))"

definition total :: "string list \<Rightarrow> nat" where
  "total batch = sum_list (map length batch)"

section \<open>batchVectorize: dispatching the batches\<close>

text \<open>
  Why a run stops before its loop has ended: an exception has escaped, or it awaits a
  promise that never settles.
\<close>

datatype halt = Threw js_error | Stuck

text \<open>
  \<open>new Error(s)\<close> for a string: a fresh object. \<open>new Error(x)\<close> for any value: the
  message is the string form of \<open>x\<close>, empty for \<open>undefined\<close>; taking the string form
  may throw.
\<close>

definition alloc_Error :: "string \<Rightarrow> world \<Rightarrow> jsval \<times> world" where
  "alloc_Error msg st = (JError (Own (heap st)) msg, st\<lparr>heap := Suc (heap st)\<rparr>)"

definition new_Error :: "rt \<Rightarrow> jsval \<Rightarrow> world \<Rightarrow> js_error + (jsval \<times> world)" where
  "new_Error R x st =
     (if x = JUndefined then Inr (alloc_Error [] st)
      else (case ToString R x of Inl e \<Rightarrow> Inl e | Inr msg \<Rightarrow> Inr (alloc_Error msg st)))"

text \<open>
  \<open>this._results.set(queue[i++], v)\<close>, with the cursor \<open>i\<close> of \<open>batchVectorize\<close>:
  past the end of the queue the key is \<open>undefined\<close> and \<open>WeakMap.set\<close> throws. The
  callbacks return the exception that escaped, if any, with the cursor and the world
  as they are then.
\<close>

definition results_set :: "item list \<Rightarrow> jsval \<Rightarrow> nat \<times> world \<Rightarrow> js_error option \<times> nat \<times> world" where
  "results_set queue v s =
     (case s of (i, st) \<Rightarrow>
        if i < length queue
        then (None, Suc i,
              st\<lparr>priv_results := (priv_results st)(ident (queue ! i) \<mapsto> v),
                 trace := trace st @ [ResultsSet (ident (queue ! i)) v]\<rparr>)
        else (Some TypeError, Suc i, st))"

text \<open>
  \<open>xs.forEach((x, k) => ...)\<close> on an array that may have holes: the callback is not
  called for an index that has no element; an exception in the callback ends the
  iteration.
\<close>

fun forEach :: "('a \<Rightarrow> nat \<Rightarrow> 's \<Rightarrow> js_error option \<times> 's) \<Rightarrow> 'a option list \<Rightarrow> nat \<Rightarrow> 's
    \<Rightarrow> js_error option \<times> 's" where
  "forEach f [] k s = (None, s)"
| "forEach f (None # xs) k s = forEach f xs (Suc k) s"
| "forEach f (Some x # xs) k s =
     (case f x k s of (Some e, s') \<Rightarrow> (Some e, s') | (None, s') \<Rightarrow> forEach f xs (Suc k) s')"

text \<open>The callback of the rejected branch, for one string of the batch.\<close>

definition rejected_item :: "rt \<Rightarrow> item list \<Rightarrow> jsval \<Rightarrow> nat \<times> world \<Rightarrow> js_error option \<times> nat \<times> world" where
  "rejected_item R queue reason s =
     (case s of (i, st) \<Rightarrow>
        if \<not> instanceof_Error reason
        then (case new_Error R reason st of
                Inl e \<Rightarrow> (Some e, i, st)
              | Inr (reason', st') \<Rightarrow> results_set queue reason' (i, st'))
        else results_set queue reason (i, st))"

text \<open>The callback of the fulfilled branch; \<open>vectors[k]\<close> past the end is \<open>undefined\<close>.\<close>

definition fulfilled_item :: "item list \<Rightarrow> jsval list \<Rightarrow> nat \<Rightarrow> nat \<times> world \<Rightarrow> js_error option \<times> nat \<times> world" where
  "fulfilled_item queue vectors k s =
     (if k < length vectors \<and> truthy (vectors ! k)
      then results_set queue (vectors ! k) s
      else results_set queue (JNum (- 1)) s)"

text \<open>
  The callback of \<open>parallelVectors.forEach\<close>; \<open>batch\<close> is \<open>parallelBatches[j]\<close> as it
  is at that moment, after the engine has had it.
\<close>

definition distribute :: "rt \<Rightarrow> item list \<Rightarrow> jsval option list \<Rightarrow> settled \<Rightarrow> nat \<times> world
    \<Rightarrow> js_error option \<times> nat \<times> world" where
  "distribute R queue batch result s =
     (case result of
        Rejected reason \<Rightarrow> forEach (\<lambda>str k. rejected_item R queue reason) batch 0 s
      | Fulfilled v \<Rightarrow>
          (let vectors = (case v of JArr vs \<Rightarrow> vs | _ \<Rightarrow> [])
           in forEach (\<lambda>str k. fulfilled_item queue vectors k) batch 0 s))"

text \<open>
  \<open>vectorizeValues\<close>, as the n-th call of the engine: calling \<open>this._vectorize\<close> when
  it is not a function rejects the promise with a TypeError and leaves the array alone.
\<close>

definition call_engine :: "engine option \<Rightarrow> nat \<Rightarrow> string list \<Rightarrow> settled option \<times> jsval option list" where
  "call_engine e n values =
     (case e of
        None \<Rightarrow> (Some (Rejected (JError (CallErr n) ''this._vectorize is not a function'')),
                 map (\<lambda>str. Some (JStr str)) values)
      | Some f \<Rightarrow> f n values)"

definition vectorizeValues :: "world \<Rightarrow> nat \<Rightarrow> string list \<Rightarrow> settled option \<times> jsval option list" where
  "vectorizeValues st n values = call_engine (priv_vectorize st) n values"

definition invokes :: "nat \<Rightarrow> string list list \<Rightarrow> event list" where
  "invokes c bs = map (\<lambda>(n, b). Invoke n b) (zip [c ..< c + length bs] bs)"

text \<open>
  One iteration of the second loop: every batch of the wave is handed to the engine;
  \<open>await Promise.allSettled\<close> returns once every promise has settled, and never if one
  does not; then the outcomes are distributed in the order of the batches, each over the
  array its call was handed, as the engine has left it. (\<open>parallelVectors\<close> is the
  array \<open>allSettled\<close> makes: it has no hole.)
\<close>

definition wave :: "rt \<Rightarrow> item list \<Rightarrow> string list list \<Rightarrow> nat \<times> world \<Rightarrow> halt option \<times> nat \<times> world" where
  "wave R queue parallelBatches s =
     (case s of (i, st) \<Rightarrow>
        let c = calls st;
            answers =
              map (\<lambda>(n, b). vectorizeValues st n b) (zip [c ..< c + length parallelBatches] parallelBatches);
            st1 = st\<lparr>calls := c + length parallelBatches,
                     trace := trace st @ invokes c parallelBatches\<rparr>
        in case those (map fst answers) of
             None \<Rightarrow> (Some Stuck, i, st1)
           | Some parallelVectors \<Rightarrow>
               (case forEach (\<lambda>result j. distribute R queue (snd (answers ! j)) result)
                       (map Some parallelVectors) 0 (i, st1\<lparr>trace := trace st1 @ [AllSettled]\<rparr>) of
                  (e, s') \<Rightarrow> (map_option Threw e, s')))"

text \<open>
  The second loop, \<open>while (batches.length)\<close>, run for at most \<open>fuel\<close> iterations. The
  result tells whether the run has stopped inside a wave, and holds the batches still to
  be processed: the loop has ended when it has not stopped and none is left. Other
  tasks of the program may run while the loop awaits a wave; the loop is taken alone
  here, so the fields it reads again in every iteration and the store change only by
  what the loop itself does.
\<close>

fun dispatch_loop :: "nat \<Rightarrow> rt \<Rightarrow> item list \<Rightarrow> string list list \<Rightarrow> nat \<times> world
    \<Rightarrow> halt option \<times> string list list \<times> nat \<times> world" where
  "dispatch_loop 0 R queue batches s = (None, batches, s)"
| "dispatch_loop (Suc fuel) R queue batches s =
     (if batches = [] then (None, [], s)
      else
        let parallelBatches = take (maximumParallelRequests (snd s)) batches;
            rest = drop (maximumParallelRequests (snd s)) batches
        in case wave R queue parallelBatches s of
             (Some h, s') \<Rightarrow> (Some h, rest, s')
           | (None, s') \<Rightarrow> dispatch_loop fuel R queue rest s')"

text \<open>
  \<open>queue.map(item => this.convertToString(item.value))\<close>: the first conversion that
  throws ends \<open>batchVectorize\<close>.
\<close>

fun convert_all :: "rt \<Rightarrow> item list \<Rightarrow> js_error + string option list" where
  "convert_all R [] = Inr []"
| "convert_all R (item # queue) =
     (case convertToString R (val item) of
        Inl e \<Rightarrow> Inl e
      | Inr s \<Rightarrow> (case convert_all R queue of Inl e \<Rightarrow> Inl e | Inr ss \<Rightarrow> Inr (s # ss)))"

text \<open>
  \<open>batchVectorize\<close>. The first loop calls \<open>.slice\<close> on every converted value, so a
  value converted to \<open>undefined\<close> makes it throw a TypeError; like a conversion that
  throws, this happens before anything is done to the manager or the engine.
\<close>

definition batchVectorize :: "nat \<Rightarrow> rt \<Rightarrow> item list \<Rightarrow> world
    \<Rightarrow> halt option \<times> string list list \<times> nat \<times> world" where
  "batchVectorize fuel R queue st =
     (case convert_all R queue of
        Inl e \<Rightarrow> (Some (Threw e), [], 0, st)
      | Inr converted \<Rightarrow>
          (case those converted of
             None \<Rightarrow> (Some (Threw TypeError), [], 0, st)
           | Some strValues \<Rightarrow>
               dispatch_loop fuel R queue (make_batches (maximumBatchSize st) strValues) (0, st)))"

section \<open>The queue, the timers and create\<close>

text \<open>
  \<open>setTimeout(cb, t)\<close> returns a fresh handle; the trace records the handle, which of
  the two callbacks of \<open>createTimeout\<close> it will run, and the delay.
\<close>

definition setTimeout :: "callback \<Rightarrow> int \<Rightarrow> world \<Rightarrow> nat \<times> world" where
  "setTimeout cb t st =
     (timers st, st\<lparr>timers := Suc (timers st), trace := trace st @ [SetTimeout (timers st) cb t]\<rparr>)"

definition createTimeout :: "world \<Rightarrow> world" where
  "createTimeout st =
     (case setTimeout FastExpiry (fastQueueTime st) st of
        (h, st') \<Rightarrow> st'\<lparr>priv_timeout := Some h\<rparr>)"

text \<open>
  \<open>__dequeue__\<close> up to its \<open>await\<close>: the flag is set, the timer cleared, the queue
  copied and emptied, and \<open>batchVectorize\<close> started on the copy.
\<close>

definition dequeue_begin :: "world \<Rightarrow> item list \<times> world" where
  "dequeue_begin st =
     (let st1 = st\<lparr>priv_processing := True\<rparr>;
          st2 = st1\<lparr>trace := trace st1 @ [ClearTimeout (priv_timeout st1)]\<rparr>;
          queue = priv_queue st2;
          st3 = st2\<lparr>priv_timeout := None\<rparr>;
          st4 = st3\<lparr>priv_queue := []\<rparr>
      in (queue, st4\<lparr>trace := trace st4 @ [BatchVectorize queue]\<rparr>))"

text \<open>
  The whole of \<open>__dequeue__\<close>, with \<open>batchVectorize\<close> run for at most \<open>fuel\<close>
  waves and nothing else happening in between: the flag is reset, and \<open>true\<close>
  returned, once the loop has ended; it stays set when the run stops inside a wave.
\<close>

definition dequeue :: "nat \<Rightarrow> rt \<Rightarrow> world \<Rightarrow> halt option \<times> bool \<times> world" where
  "dequeue fuel R st =
     (case dequeue_begin st of
        (queue, st') \<Rightarrow>
          (case batchVectorize fuel R queue st' of
             (Some h, rest, i, st'') \<Rightarrow> (Some h, False, st'')
           | (None, rest, i, st'') \<Rightarrow>
               if rest = [] then (None, True, st''\<lparr>priv_processing := False\<rparr>)
               else (None, False, st'')))"

text \<open>
  The two callbacks handed to \<open>setTimeout\<close> in \<open>createTimeout\<close>, up to the first
  \<open>await\<close> of what they call. The result tells whether a flush was started, and on
  which copy of the queue.
\<close>

definition on_fast_expiry :: "world \<Rightarrow> item list option \<times> world" where
  "on_fast_expiry st =
     (if priv_processing st then (None, createTimeout st)
      else if length (priv_queue st) \<le> 1
      then (case dequeue_begin st of (queue, st') \<Rightarrow> (Some queue, st'))
      else (case setTimeout WaitExpiry (waitQueueTime st - fastQueueTime st) st of
              (h, st') \<Rightarrow> (None, st'\<lparr>priv_timeout := Some h\<rparr>)))"

definition on_wait_expiry :: "world \<Rightarrow> item list option \<times> world" where
  "on_wait_expiry st = (case dequeue_begin st of (queue, st') \<Rightarrow> (Some queue, st'))"

text \<open>
  What \<open>setEngine\<close> is called with: something that is not a function, a function
  that is not asynchronous, or an asynchronous function.
\<close>

datatype fn = NotAFunction jsval | SyncFunction | AsyncFunction engine

definition setEngine :: "rt \<Rightarrow> fn \<Rightarrow> world \<Rightarrow> (js_error + bool) \<times> world" where
  "setEngine R fnVectorize st =
     (case fnVectorize of
        NotAFunction v \<Rightarrow>
          (case alloc_Error ''.setEngine(fn) expects a valid function'' st of
             (err, st') \<Rightarrow> (Inl (Throw err), st'))
      | SyncFunction \<Rightarrow>
          (case alloc_Error ''.setEngine(fn) expects an Asynchronous function'' st of
             (err, st') \<Rightarrow> (Inl (Throw err), st'))
      | AsyncFunction f \<Rightarrow> (Inr True, st\<lparr>priv_vectorize := Some f\<rparr>))"

definition no_engine_message :: string where
  "no_engine_message =
     ''Could not vectorize: no vector engine has been set.'' @ [CHR 0x0A] @
     ''Use Instant.Vectors.setEngine(fn) to enable.''"

text \<open>The message of line 190: the template literal takes the string form of the value, which may throw.\<close>

definition invalid_vector_message :: "rt \<Rightarrow> jsval \<Rightarrow> js_error + string" where
  "invalid_vector_message R v =
     (case ToString R v of
        Inl e \<Rightarrow> Inl e
      | Inr s \<Rightarrow>
          Inr (''Could not vectorize: vector engine did not return a valid vector for input '' @
               [CHR 0x22] @ s @ [CHR 0x22]))"

text \<open>
  \<open>create\<close> up to its first \<open>await\<close>: it throws when no engine is set, and otherwise
  allocates the item, appends it to the queue and starts a timer if none is set.
\<close>

definition create_begin :: "rt \<Rightarrow> jsval \<Rightarrow> world \<Rightarrow> (js_error + item) \<times> world" where
  "create_begin R v st =
     (if priv_vectorize st = None
      then (case alloc_Error no_engine_message st of (err, st') \<Rightarrow> (Inl (Throw err), st'))
      else
        let item = \<lparr>ident = Own (heap st), val = v\<rparr>;
            st1 = st\<lparr>heap := Suc (heap st)\<rparr>;
            st2 = st1\<lparr>priv_queue := priv_queue st1 @ [item]\<rparr>;
            st3 = (if priv_timeout st2 = None then createTimeout st2 else st2)
        in (Inr item, st3))"

text \<open>
  One round of the waiting loop of \<open>create\<close> and what follows it: \<open>None\<close> when
  \<open>this._results.get(item)\<close> is not truthy (the caller sleeps and polls again), and
  otherwise the value returned or the exception thrown, the entry being deleted.
\<close>

definition create_poll :: "rt \<Rightarrow> item \<Rightarrow> world \<Rightarrow> (js_error + jsval) option \<times> world" where
  "create_poll R item st =
     (let result = (case priv_results st (ident item) of None \<Rightarrow> JUndefined | Some r \<Rightarrow> r)
      in if \<not> truthy result then (None, st)
         else
           let st1 = st\<lparr>priv_results := (priv_results st)(ident item := None)\<rparr>
           in if instanceof_Error result then (Some (Inl (Throw result)), st1)
              else if \<not> isArray result
              then (case invalid_vector_message R (val item) of
                      Inl e \<Rightarrow> (Some (Inl e), st1)
                    | Inr msg \<Rightarrow>
                        (case alloc_Error msg st1 of (err, st2) \<Rightarrow> (Some (Inl (Throw err)), st2)))
              else (Some (Inr result), st1))"

section \<open>Reading a trace\<close>

text \<open>
  The calls of \<open>_results.set\<close> in a trace, in order; the calls of the engine, in
  order; the batches handed to the engine, grouped by the \<open>allSettled\<close> that
  follows them (the last group is the wave still awaited, if any); the number of
  \<open>allSettled\<close> in a trace; the number of calls made since the last \<open>allSettled\<close>
  (no call made before it is still outstanding), and the largest value this number
  takes over the prefixes of a trace.
\<close>

fun writes_of :: "event list \<Rightarrow> (objref \<times> jsval) list" where
  "writes_of [] = []"
| "writes_of (ResultsSet k v # es) = (k, v) # writes_of es"
| "writes_of (e # es) = writes_of es"

fun invocations :: "event list \<Rightarrow> (nat \<times> string list) list" where
  "invocations [] = []"
| "invocations (Invoke n b # es) = (n, b) # invocations es"
| "invocations (e # es) = invocations es"

fun waves_in :: "event list \<Rightarrow> string list list \<Rightarrow> string list list list" where
  "waves_in [] cur = (if cur = [] then [] else [cur])"
| "waves_in (Invoke n b # es) cur = waves_in es (cur @ [b])"
| "waves_in (AllSettled # es) cur = cur # waves_in es []"
| "waves_in (e # es) cur = waves_in es cur"



fun peak :: "nat \<Rightarrow> event list \<Rightarrow> nat" where
  "peak n [] = n"
| "peak n (Invoke c b # es) = max n (peak (Suc n) es)"
| "peak n (AllSettled # es) = max n (peak 0 es)"
| "peak n (e # es) = peak n es"

text \<open>
  The world one run of \<open>batchVectorize\<close> leaves behind, however it stops, and what it
  has stored, in order.
\<close>

definition flush_result :: "nat \<Rightarrow> rt \<Rightarrow> item list \<Rightarrow> world \<Rightarrow> world" where
  "flush_result fuel R queue st = snd (snd (snd (batchVectorize fuel R queue st)))"

definition flush_writes :: "nat \<Rightarrow> rt \<Rightarrow> item list \<Rightarrow> world \<Rightarrow> (objref \<times> jsval) list" where
  "flush_writes fuel R queue st =
     writes_of (drop (length (trace st)) (trace (flush_result fuel R queue st)))"

section \<open>The effect of the dispatch in closed form\<close>

text \<open>
  The strings of a queue, when every value has one (\<open>None\<close> when a conversion throws
  or gives \<open>undefined\<close>); the batches \<open>batchVectorize\<close> makes of them; and the
  batch and the place in it of the p-th string of the concatenation of a list of
  batches.
\<close>

definition strings_of :: "rt \<Rightarrow> item list \<Rightarrow> string list option" where
  "strings_of R queue = (case convert_all R queue of Inl e \<Rightarrow> None | Inr converted \<Rightarrow> those converted)"

definition batches_of :: "rt \<Rightarrow> item list \<Rightarrow> world \<Rightarrow> string list list" where
  "batches_of R queue st =
     make_batches (maximumBatchSize st) (case strings_of R queue of None \<Rightarrow> [] | Some strValues \<Rightarrow> strValues)"

fun locate :: "'a list list \<Rightarrow> nat \<Rightarrow> (nat \<times> nat) option" where
  "locate [] p = None"
| "locate (b # bs) p =
     (if p < length b then Some (0, p)
      else map_option (\<lambda>(j, k). (Suc j, k)) (locate bs (p - length b)))"

text \<open>
  A call of the engine behaves when its promise settles, it leaves the array it was
  handed at its length and without a hole, and a reason it rejects with is an Error or
  has a string form
  (\<open>new Error(reason)\<close> does not throw). \<open>well_behaved\<close> says so of the calls
  made for a list of batches, numbered from \<open>c\<close>. \<open>settled_as\<close> and
  \<open>message_of\<close> read the outcome and the message off a call that behaves.
\<close>

definition has_message :: "rt \<Rightarrow> jsval \<Rightarrow> bool" where
  "has_message R x = (x = JUndefined \<or> (case ToString R x of Inl e \<Rightarrow> False | Inr msg \<Rightarrow> True))"

definition message_of :: "rt \<Rightarrow> jsval \<Rightarrow> string" where
  "message_of R x =
     (if x = JUndefined then [] else (case ToString R x of Inl e \<Rightarrow> [] | Inr msg \<Rightarrow> msg))"

definition behaves :: "rt \<Rightarrow> engine option \<Rightarrow> nat \<Rightarrow> string list \<Rightarrow> bool" where
  "behaves R e n b =
     (case call_engine e n b of
        (None, b') \<Rightarrow> False
      | (Some (Fulfilled v), b') \<Rightarrow> length b' = length b \<and> None \<notin> set b'
      | (Some (Rejected reason), b') \<Rightarrow>
          length b' = length b \<and> None \<notin> set b' \<and>
          (instanceof_Error reason \<or> has_message R reason))"

fun well_behaved :: "rt \<Rightarrow> engine option \<Rightarrow> nat \<Rightarrow> string list list \<Rightarrow> bool" where
  "well_behaved R e c [] = True"
| "well_behaved R e c (b # bs) = (behaves R e c b \<and> well_behaved R e (Suc c) bs)"

definition settled_as :: "engine option \<Rightarrow> nat \<Rightarrow> string list \<Rightarrow> settled" where
  "settled_as e n b = (case fst (call_engine e n b) of None \<Rightarrow> Rejected JUndefined | Some r \<Rightarrow> r)"

definition good_outcome :: "rt \<Rightarrow> settled \<Rightarrow> bool" where
  "good_outcome R r =
     (case r of Fulfilled v \<Rightarrow> True | Rejected reason \<Rightarrow> instanceof_Error reason \<or> has_message R reason)"

text \<open>
  What the callbacks store for the k-th string of a batch whose call settled as \<open>r\<close>,
  \<open>h\<close> being the allocation counter when the batch is reached, and how many objects
  they allocate for a batch of n strings.
\<close>

definition as_array :: "jsval \<Rightarrow> jsval list" where
  "as_array v = (case v of JArr vs \<Rightarrow> vs | _ \<Rightarrow> [])"

definition written :: "rt \<Rightarrow> settled \<Rightarrow> nat \<Rightarrow> nat \<Rightarrow> jsval" where
  "written R r h k =
     (case r of
        Rejected reason \<Rightarrow>
          if instanceof_Error reason then reason
          else JError (Own (h + k)) (message_of R reason)
      | Fulfilled v \<Rightarrow>
          if k < length (as_array v) \<and> truthy (as_array v ! k) then as_array v ! k else JNum (- 1))"

definition allocs :: "settled \<Rightarrow> nat \<Rightarrow> nat" where
  "allocs r n = (case r of Rejected reason \<Rightarrow> if instanceof_Error reason then 0 else n | Fulfilled v \<Rightarrow> 0)"

definition batch_writes :: "rt \<Rightarrow> item list \<Rightarrow> settled \<Rightarrow> nat \<Rightarrow> nat \<Rightarrow> nat \<Rightarrow> (objref \<times> jsval) list" where
  "batch_writes R queue r i h n = map (\<lambda>k. (ident (queue ! (i + k)), written R r h k)) [0 ..< n]"

text \<open>
  Storing a list of values and recording it in the trace; what is stored for a list of
  batches called from call number \<open>c\<close> on, with the cursor at \<open>i\<close> and the
  allocation counter at \<open>h\<close>; the events of the loop, and the world after it, when
  the calls behave. \<open>effect\<close> relates two worlds that differ by stores of truthy
  values and allocations only; it is what every callback of the dispatch does, whatever
  the engine has done.
\<close>

definition store_all :: "(objref \<rightharpoonup> jsval) \<Rightarrow> (objref \<times> jsval) list \<Rightarrow> (objref \<rightharpoonup> jsval)" where
  "store_all m ws = foldl (\<lambda>m (k, v). m(k \<mapsto> v)) m ws"

definition write_event :: "objref \<times> jsval \<Rightarrow> event" where
  "write_event w = ResultsSet (fst w) (snd w)"

definition commit :: "(objref \<times> jsval) list \<Rightarrow> nat \<Rightarrow> world \<Rightarrow> world" where
  "commit ws a st =
     st\<lparr>priv_results := store_all (priv_results st) ws,
        heap := heap st + a,
        trace := trace st @ map write_event ws\<rparr>"

fun jobs_writes :: "rt \<Rightarrow> item list \<Rightarrow> engine option \<Rightarrow> nat \<Rightarrow> nat \<Rightarrow> nat \<Rightarrow> string list list
    \<Rightarrow> (objref \<times> jsval) list" where
  "jobs_writes R queue e c i h [] = []"
| "jobs_writes R queue e c i h (b # bs) =
     batch_writes R queue (settled_as e c b) i h (length b) @
     jobs_writes R queue e (Suc c) (i + length b) (h + allocs (settled_as e c b) (length b)) bs"

fun jobs_allocs :: "engine option \<Rightarrow> nat \<Rightarrow> string list list \<Rightarrow> nat" where
  "jobs_allocs e c [] = 0"
| "jobs_allocs e c (b # bs) = allocs (settled_as e c b) (length b) + jobs_allocs e (Suc c) bs"

fun loop_events :: "rt \<Rightarrow> item list \<Rightarrow> engine option \<Rightarrow> nat \<Rightarrow> nat \<Rightarrow> nat \<Rightarrow> nat \<Rightarrow> nat
    \<Rightarrow> string list list \<Rightarrow> event list" where
  "loop_events R queue e m 0 c i h bs = []"
| "loop_events R queue e m (Suc fuel) c i h bs =
     (if bs = [] then []
      else invokes c (take m bs) @ [AllSettled] @
           map write_event (jobs_writes R queue e c i h (take m bs)) @
           loop_events R queue e m fuel (c + length (take m bs)) (i + length (concat (take m bs)))
             (h + jobs_allocs e c (take m bs)) (drop m bs))"

definition after_loop :: "rt \<Rightarrow> item list \<Rightarrow> nat \<Rightarrow> nat \<Rightarrow> string list list \<Rightarrow> world \<Rightarrow> world" where
  "after_loop R queue fuel i bs st =
     (let m = maximumParallelRequests st; e = priv_vectorize st;
          don = take (fuel * m) bs
      in st\<lparr>priv_results := store_all (priv_results st) (jobs_writes R queue e (calls st) i (heap st) don),
            heap := heap st + jobs_allocs e (calls st) don,
            calls := calls st + length don,
            trace := trace st @ loop_events R queue e m fuel (calls st) i (heap st) bs\<rparr>)"

definition effect :: "world \<Rightarrow> world \<Rightarrow> bool" where
  "effect st st' = (\<exists>ws a. st' = commit ws a st \<and> (\<forall>w \<in> set ws. truthy (snd w)))"

text \<open>
  The invariant of the first loop: the running size is the total of the last batch and
  no batch is over the budget.
\<close>

definition in_budget :: "nat \<Rightarrow> string list list \<times> nat \<Rightarrow> bool" where
  "in_budget M p = (fst p \<noteq> [] \<and> snd p = total (last (fst p)) \<and> list_all (\<lambda>b. total b \<le> M) (fst p))"


text \<open>
  The items of the queue are distinct objects allocated by \<open>create\<close>: an invariant
  of the manager, so every queue handed to \<open>batchVectorize\<close> has distinct items.
\<close>

fun allocated :: "nat \<Rightarrow> objref \<Rightarrow> bool" where
  "allocated h (Own n) = (n < h)"
| "allocated h r = False"

definition fresh_queue :: "world \<Rightarrow> bool" where
  "fresh_queue st =
     (distinct (map ident (priv_queue st)) \<and>
      list_all (\<lambda>item. allocated (heap st) (ident item)) (priv_queue st))"

text \<open>A store in which every value is truthy.\<close>

definition all_truthy :: "(objref \<rightharpoonup> jsval) \<Rightarrow> bool" where
  "all_truthy m = (\<forall>k v. m k = Some v \<longrightarrow> truthy v)"

section \<open>Outcomes and waves as the specification names them\<close>

text \<open>
  The outcome of a request as the specification has it (Pending is the absence of an
  outcome), how the outcome of the k-th item follows from what the call for its batch
  settled as, and which stored value stands for which outcome: the rejection reason
  itself when it is an Error and otherwise a new Error made from it (its message the
  string form of the reason, and empty for \<open>undefined\<close>), the entry, or the sentinel
  -1. \<open>delivered\<close> says that a value stands for the outcome of the p-th request, the
  call for its batch having settled; \<open>position_string\<close> is the string the engine
  was given for it.
\<close>

datatype outcome = Success jsval | Failure jsval | Malformed

definition outcome_of :: "settled \<Rightarrow> nat \<Rightarrow> outcome" where
  "outcome_of r k =
     (case r of
        Rejected err \<Rightarrow> Failure err
      | Fulfilled v \<Rightarrow>
          (let sequence = (if isArray v then as_array v else [])
           in if k < length sequence \<and> truthy (sequence ! k) then Success (sequence ! k) else Malformed))"

definition represents :: "rt \<Rightarrow> outcome \<Rightarrow> jsval \<Rightarrow> bool" where
  "represents R oc v =
     (case oc of
        Success entry \<Rightarrow> v = entry
      | Malformed \<Rightarrow> v = JNum (- 1)
      | Failure err \<Rightarrow>
          if instanceof_Error err then v = err
          else (case v of
                  JError (Own n) msg \<Rightarrow>
                    (if err = JUndefined then msg = [] else ToString R err = Inr msg)
                | _ \<Rightarrow> False))"

definition delivered :: "rt \<Rightarrow> engine option \<Rightarrow> nat \<Rightarrow> string list list \<Rightarrow> nat \<Rightarrow> jsval \<Rightarrow> bool" where
  "delivered R e c batches p v =
     (case locate batches p of
        None \<Rightarrow> False
      | Some (j, k) \<Rightarrow>
          (case fst (call_engine e (c + j) (batches ! j)) of
             None \<Rightarrow> False
           | Some r \<Rightarrow> represents R (outcome_of r k) v))"

definition position_string :: "string list list \<Rightarrow> nat \<Rightarrow> string option" where
  "position_string batches p =
     (case locate batches p of None \<Rightarrow> None | Some (j, k) \<Rightarrow> Some (batches ! j ! k))"

text \<open>
  The first \<open>k\<close> waves the specification describes: at most m batches each, taken in
  order.
\<close>

fun wave_split :: "nat \<Rightarrow> nat \<Rightarrow> 'a list \<Rightarrow> 'a list list" where
  "wave_split 0 m bs = []"
| "wave_split (Suc fuel) m bs = (if bs = [] then [] else take m bs # wave_split fuel m (drop m bs))"

section \<open>A small run\<close>

text \<open>
  Three requests, a budget of three characters, one call at a time, and an engine whose
  first call is rejected with a string; then engines that settle every call the same
  way, an engine that answers every string with a vector naming it and whose first call
  empties the array it was handed (\<open>values.length = 0\<close>), and an engine whose calls
  never settle.
\<close>

definition example_rt :: rt where
  "example_rt = \<lparr>ToString_other = (\<lambda>v. Inr ''[value]''), JSON_stringify = (\<lambda>v. Inr (Some ''{}''))\<rparr>"

definition example_queue :: "item list" where
  "example_queue =
     [\<lparr>ident = Own 0, val = JStr ''abcd''\<rparr>,
      \<lparr>ident = Own 1, val = JStr ''ab''\<rparr>,
      \<lparr>ident = Own 2, val = JStr ''c''\<rparr>]"

definition example_engine :: engine where
  "example_engine n values =
     (Some (if n = 0 then Rejected (JStr ''boom'') else Fulfilled (JArr [JArr [JNum 1]])),
      map (\<lambda>str. Some (JStr str)) values)"

definition example_world :: world where
  "example_world =
     initialize\<lparr>maximumBatchSize := 3, maximumParallelRequests := 1,
       priv_vectorize := Some example_engine, heap := 3\<rparr>"

definition example_final :: world where
  "example_final =
     example_world\<lparr>
       priv_results := [Own 0 \<mapsto> JError (Own 3) ''boom'', Own 1 \<mapsto> JArr [JNum 1], Own 2 \<mapsto> JNum (- 1)],
       heap := 4, calls := 2,
       trace := [Invoke 0 [''abc''], AllSettled, ResultsSet (Own 0) (JError (Own 3) ''boom''),
                 Invoke 1 [''ab'', ''c''], AllSettled, ResultsSet (Own 1) (JArr [JNum 1]),
                 ResultsSet (Own 2) (JNum (- 1))]\<rparr>"

definition rejecting :: "jsval \<Rightarrow> engine" where
  "rejecting reason n values = (Some (Rejected reason), map (\<lambda>str. Some (JStr str)) values)"

definition fulfilling :: "jsval \<Rightarrow> engine" where
  "fulfilling v n values = (Some (Fulfilled v), map (\<lambda>str. Some (JStr str)) values)"

definition emptying :: engine where
  "emptying n values =
     (Some (Fulfilled (JArr (map (\<lambda>str. JArr [JStr str]) values))),
      if n = 0 then [] else map (\<lambda>str. Some (JStr str)) values)"

definition pending :: engine where
  "pending n values = (None, map (\<lambda>str. Some (JStr str)) values)"

definition example_with :: "engine \<Rightarrow> world" where
  "example_with e = example_world\<lparr>priv_vectorize := Some e\<rparr>"

section \<open>Properties of the split\<close>

lemma push_last:
  "bs \<noteq> [] \<Longrightarrow> bs[length bs - Suc 0 := bs ! (length bs - Suc 0) @ [x]] = butlast bs @ [last bs @ [x]]"
  by (induction bs rule: rev_induct) (simp_all add: nth_append)

lemma concat_push_last:
  "bs \<noteq> [] \<Longrightarrow> concat (bs[length bs - Suc 0 := bs ! (length bs - Suc 0) @ [x]]) = concat bs @ [x]"
  by (induction bs rule: rev_induct) (simp_all add: nth_append)

lemma batch_loop_nonempty:
  "bs \<noteq> [] \<Longrightarrow> fst (batch_loop M strs (bs, c)) \<noteq> []"
  by (induction strs arbitrary: bs c) (simp_all add: Let_def)

lemma batch_loop_concat:
  "bs \<noteq> [] \<Longrightarrow> concat (fst (batch_loop M strs (bs, c))) = concat bs @ map (take M) strs"
proof (induction strs arbitrary: bs c)
  case Nil
  then show ?case by simp
next
  case (Cons s strs)
  have ne: "bs[length bs - 1 := bs ! (length bs - 1) @ [take M s]] \<noteq> []"
    using Cons.prems by simp
  show ?case
    using Cons.prems Cons.IH [OF ne] Cons.IH [of "bs @ [[take M s]]"]
    by (simp add: Let_def concat_push_last)
qed

lemma in_budget_step_new:
  "in_budget M (bs, c) \<Longrightarrow> in_budget M (bs @ [[take M s]], length (take M s))"
  by (simp add: in_budget_def total_def)

lemma in_budget_step_push:
  assumes "in_budget M (bs, c)" and "c + length (take M s) \<le> M"
  shows "in_budget M (bs[length bs - 1 := bs ! (length bs - 1) @ [take M s]], c + length (take M s))"
proof -
  from assms(1) have ne: "bs \<noteq> []" and c: "c = total (last bs)"
    and all: "list_all (\<lambda>b. total b \<le> M) bs"
    by (simp_all add: in_budget_def)
  from all have "list_all (\<lambda>b. total b \<le> M) (butlast bs)"
    by (auto simp: list_all_iff dest: in_set_butlastD)
  moreover have "total (last bs @ [take M s]) = c + length (take M s)"
    using c by (simp add: total_def)
  ultimately show ?thesis
    using assms(2) ne by (simp add: in_budget_def push_last)
qed

lemma batch_loop_in_budget:
  "in_budget M (bs, c) \<Longrightarrow> in_budget M (batch_loop M strs (bs, c))"
proof (induction strs arbitrary: bs c)
  case Nil
  then show ?case by simp
next
  case (Cons s strs)
  show ?case
  proof (cases "c + length (take M s) > M")
    case True
    then show ?thesis
      using Cons.IH [OF in_budget_step_new [OF Cons.prems, of s]] by (simp add: Let_def)
  next
    case False
    then have "c + length (take M s) \<le> M" by simp
    from in_budget_step_push [OF Cons.prems this] False show ?thesis
      using Cons.IH by (simp add: Let_def)
  qed
qed

lemma make_batches_in_budget: "list_all (\<lambda>b. total b \<le> M) (make_batches M strs)"
proof -
  have "in_budget M ([[]], 0)" by (simp add: in_budget_def total_def)
  from batch_loop_in_budget [OF this, of strs] show ?thesis
    by (simp add: in_budget_def make_batches_def)
qed

lemma make_batches_nonempty: "make_batches M strs \<noteq> []"
  by (simp add: make_batches_def batch_loop_nonempty)

lemma make_batches_concat: "concat (make_batches M strs) = map (take M) strs"
  by (simp add: make_batches_def batch_loop_concat)

section \<open>Properties of the dispatch\<close>

subsection \<open>One batch, one wave, the loop, when the calls behave\<close>

lemma commit_Nil: "commit [] 0 st = st"
  by (simp add: commit_def store_all_def)

lemma commit_commit: "commit ws2 a2 (commit ws1 a1 st) = commit (ws1 @ ws2) (a1 + a2) st"
  by (simp add: commit_def store_all_def)

lemma heap_commit: "heap (commit ws a st) = heap st + a"
  by (simp add: commit_def)

lemma results_set_commit:
  "i < length queue \<Longrightarrow>
   results_set queue v (i, st) = (None, Suc i, commit [(ident (queue ! i), v)] 0 st)"
  by (simp add: results_set_def commit_def store_all_def write_event_def)

lemma fulfilled_item_commit:
  "i < length queue \<Longrightarrow>
   fulfilled_item queue (as_array v) k (i, st) =
     (None, Suc i, commit [(ident (queue ! i), written R (Fulfilled v) h k)] 0 st)"
  by (simp add: fulfilled_item_def results_set_commit written_def)

lemma rejected_item_commit:
  "i < length queue \<Longrightarrow> instanceof_Error reason \<or> has_message R reason \<Longrightarrow>
   rejected_item R queue reason (i, st) =
     (None, Suc i, commit [(ident (queue ! i), written R (Rejected reason) (heap st) 0)]
                   (allocs (Rejected reason) (Suc 0)) st)"
  by (auto simp: rejected_item_def new_Error_def alloc_Error_def results_set_def commit_def
      store_all_def write_event_def written_def allocs_def has_message_def message_of_def
      split: sum.splits)

lemma written_shift:
  "written R (Rejected reason) (h + allocs (Rejected reason) (Suc 0)) k = written R (Rejected reason) h (Suc k)"
  by (simp add: written_def allocs_def)

lemma allocs_Suc: "allocs r (Suc 0) + allocs r n = allocs r (Suc n)"
  by (simp add: allocs_def split: settled.splits)

lemma forEach_rejected:
  "i + length xs \<le> length queue \<Longrightarrow> instanceof_Error reason \<or> has_message R reason \<Longrightarrow>
   None \<notin> set xs \<Longrightarrow>
   forEach (\<lambda>str k. rejected_item R queue reason) xs k0 (i, st) =
     (None, i + length xs,
      commit (batch_writes R queue (Rejected reason) i (heap st) (length xs))
        (allocs (Rejected reason) (length xs)) st)"
proof (induction xs arbitrary: i st k0)
  case Nil
  then show ?case by (simp add: batch_writes_def allocs_def commit_Nil split: settled.splits)
next
  case (Cons x xs)
  then have lt: "i < length queue" and le: "Suc i + length xs \<le> length queue"
    and dense: "None \<notin> set xs" by simp_all
  from Cons.prems(3) obtain y where x: "x = Some y" by (cases x) auto
  show ?case
    unfolding x
    by (simp add: rejected_item_commit [OF lt Cons.prems(2)] Cons.IH [OF le Cons.prems(2) dense]
        commit_commit heap_commit written_shift allocs_Suc batch_writes_def map_upt_Suc
        del: upt_Suc)
qed

lemma forEach_fulfilled:
  "i + length xs \<le> length queue \<Longrightarrow> None \<notin> set xs \<Longrightarrow>
   forEach (\<lambda>str k. fulfilled_item queue (as_array v) k) xs k0 (i, st) =
     (None, i + length xs,
      commit (map (\<lambda>k. (ident (queue ! (i + k)), written R (Fulfilled v) h (k0 + k))) [0 ..< length xs]) 0 st)"
proof (induction xs arbitrary: i st k0)
  case Nil
  then show ?case by (simp add: commit_Nil)
next
  case (Cons x xs)
  then have lt: "i < length queue" and le: "Suc i + length xs \<le> length queue"
    and dense: "None \<notin> set xs" by simp_all
  from Cons.prems(2) obtain y where x: "x = Some y" by (cases x) auto
  show ?case
    unfolding x
    by (simp add: fulfilled_item_commit [OF lt, of v k0 st R h] Cons.IH [OF le dense] commit_commit
        map_upt_Suc del: upt_Suc)
qed

lemma distribute_commit:
  "i + length b \<le> length queue \<Longrightarrow> good_outcome R r \<Longrightarrow> None \<notin> set b \<Longrightarrow>
   distribute R queue b r (i, st) =
     (None, i + length b, commit (batch_writes R queue r i (heap st) (length b)) (allocs r (length b)) st)"
proof (cases r)
  case (Fulfilled v)
  assume "i + length b \<le> length queue" and "None \<notin> set b"
  from forEach_fulfilled [OF this, of v 0 st R "heap st"] Fulfilled show ?thesis
    by (simp add: distribute_def as_array_def [symmetric] batch_writes_def allocs_def)
next
  case (Rejected reason)
  assume "i + length b \<le> length queue" and "good_outcome R r" and "None \<notin> set b"
  then show ?thesis
    using forEach_rejected [of i b queue reason R 0 st] Rejected
    by (simp add: distribute_def good_outcome_def)
qed

lemma jobs_allocs_append:
  "jobs_allocs e c (xs @ ys) = jobs_allocs e c xs + jobs_allocs e (c + length xs) ys"
  by (induction xs arbitrary: c) simp_all

lemma jobs_writes_append:
  "jobs_writes R queue e c i h (xs @ ys) =
     jobs_writes R queue e c i h xs @
     jobs_writes R queue e (c + length xs) (i + length (concat xs)) (h + jobs_allocs e c xs) ys"
  by (induction xs arbitrary: c i h) (simp_all add: add.assoc)

lemma well_behaved_append:
  "well_behaved R e c (xs @ ys) = (well_behaved R e c xs \<and> well_behaved R e (c + length xs) ys)"
  by (induction xs arbitrary: c) simp_all

lemma well_behaved_nth:
  "well_behaved R e c bs \<Longrightarrow> j < length bs \<Longrightarrow> behaves R e (c + j) (bs ! j)"
proof (induction bs arbitrary: c j)
  case Nil
  then show ?case by simp
next
  case (Cons b bs)
  show ?case
  proof (cases j)
    case 0
    then show ?thesis using Cons.prems by simp
  next
    case (Suc n)
    then show ?thesis using Cons.IH [of "Suc c" n] Cons.prems by simp
  qed
qed


lemma behaves_settles:
  "behaves R e n b \<Longrightarrow> fst (call_engine e n b) = Some (settled_as e n b)"
  by (auto simp: behaves_def settled_as_def split: prod.splits option.splits)

lemma behaves_length:
  "behaves R e n b \<Longrightarrow> length (snd (call_engine e n b)) = length b"
  by (auto simp: behaves_def split: prod.splits option.splits settled.splits)

lemma behaves_dense:
  "behaves R e n b \<Longrightarrow> None \<notin> set (snd (call_engine e n b))"
  by (auto simp: behaves_def split: prod.splits option.splits settled.splits)

lemma behaves_good:
  "behaves R e n b \<Longrightarrow> good_outcome R (settled_as e n b)"
  by (auto simp: behaves_def settled_as_def good_outcome_def split: prod.splits option.splits settled.splits)

lemma those_settled:
  "well_behaved R e c pb \<Longrightarrow>
   those (map fst (map (\<lambda>(n, b). call_engine e n b) (zip [c ..< c + length pb] pb))) =
     Some (map (\<lambda>(n, b). settled_as e n b) (zip [c ..< c + length pb] pb))"
proof (induction pb arbitrary: c)
  case Nil
  then show ?case by simp
next
  case (Cons b pb)
  have up: "[c ..< c + length (b # pb)] = c # [Suc c ..< Suc c + length pb]"
    by (simp add: upt_conv_Cons del: upt_Suc)
  from Cons.prems have b: "behaves R e c b" and w: "well_behaved R e (Suc c) pb" by simp_all
  show ?case
    unfolding up using Cons.IH [OF w] behaves_settles [OF b] by simp
qed

lemma forEach_wave:
  "length pb - j0 = n \<Longrightarrow> j0 \<le> length pb \<Longrightarrow> i + length (concat (drop j0 pb)) \<le> length queue \<Longrightarrow>
   (\<And>j. j < length pb \<Longrightarrow>
      length (arr j) = length (pb ! j) \<and> None \<notin> set (arr j) \<and>
      good_outcome R (settled_as e (c + j) (pb ! j))) \<Longrightarrow>
   forEach (\<lambda>result j. distribute R queue (arr j) result)
     (map Some (map (\<lambda>(n, b). settled_as e n b) (zip [c + j0 ..< c + length pb] (drop j0 pb)))) j0 (i, st) =
   (None, i + length (concat (drop j0 pb)),
        commit (jobs_writes R queue e (c + j0) i (heap st) (drop j0 pb))
          (jobs_allocs e (c + j0) (drop j0 pb)) st)"
proof (induction n arbitrary: j0 i st)
  case 0
  then show ?case by (simp add: commit_Nil)
next
  case (Suc n)
  then have lt: "j0 < length pb" by simp
  have dr: "drop j0 pb = pb ! j0 # drop (Suc j0) pb"
    using lt by (simp add: Cons_nth_drop_Suc)
  have up: "[c + j0 ..< c + length pb] = (c + j0) # [c + Suc j0 ..< c + length pb]"
    using lt by (simp add: upt_conv_Cons)
  have len0: "length (arr j0) = length (pb ! j0)"
    and dense0: "None \<notin> set (arr j0)"
    and good0: "good_outcome R (settled_as e (c + j0) (pb ! j0))"
    using Suc.prems(4) [OF lt] by simp_all
  have le1: "i + length (arr j0) \<le> length queue"
    using Suc.prems(3) dr len0 by simp
  have le2: "(i + length (pb ! j0)) + length (concat (drop (Suc j0) pb)) \<le> length queue"
    using Suc.prems(3) dr by simp
  have n: "length pb - Suc j0 = n" using Suc.prems(1) by simp
  have j: "Suc j0 \<le> length pb" using lt by simp
  let ?f = "\<lambda>result j. distribute R queue (arr j) result"
  let ?r = "settled_as e (c + j0) (pb ! j0)"
  let ?st1 = "commit (batch_writes R queue ?r i (heap st) (length (pb ! j0)))
                (allocs ?r (length (pb ! j0))) st"
  have rs: "map Some (map (\<lambda>(n, b). settled_as e n b) (zip [c + j0 ..< c + length pb] (drop j0 pb))) =
      Some ?r # map Some (map (\<lambda>(n, b). settled_as e n b) (zip [c + Suc j0 ..< c + length pb] (drop (Suc j0) pb)))"
    by (subst dr, subst up) simp
  have step: "?f ?r j0 (i, st) = (None, i + length (pb ! j0), ?st1)"
    using distribute_commit [OF le1 good0 dense0, of st] by (simp add: len0)
  have IH: "forEach ?f (map Some (map (\<lambda>(n, b). settled_as e n b) (zip [c + Suc j0 ..< c + length pb] (drop (Suc j0) pb))))
      (Suc j0) (i + length (pb ! j0), ?st1) =
    (None, i + length (pb ! j0) + length (concat (drop (Suc j0) pb)),
        commit (jobs_writes R queue e (c + Suc j0) (i + length (pb ! j0)) (heap ?st1) (drop (Suc j0) pb))
          (jobs_allocs e (c + Suc j0) (drop (Suc j0) pb)) ?st1)"
    by (rule Suc.IH [OF n j le2 Suc.prems(4)])
  have fin: "commit (jobs_writes R queue e (c + Suc j0) (i + length (pb ! j0)) (heap ?st1) (drop (Suc j0) pb))
          (jobs_allocs e (c + Suc j0) (drop (Suc j0) pb)) ?st1 =
        commit (jobs_writes R queue e (c + j0) i (heap st) (pb ! j0 # drop (Suc j0) pb))
          (jobs_allocs e (c + j0) (pb ! j0 # drop (Suc j0) pb)) st"
    by (simp add: commit_commit heap_commit)
  have len: "i + length (pb ! j0) + length (concat (drop (Suc j0) pb)) = i + length (concat (pb ! j0 # drop (Suc j0) pb))"
    by simp
  show ?case
    unfolding rs forEach.simps step prod.case option.case IH fin len
    unfolding dr [symmetric] ..
qed

lemma wave_commit:
  assumes room: "i + length (concat pb) \<le> length queue"
    and wb: "well_behaved R (priv_vectorize st) (calls st) pb"
  shows "wave R queue pb (i, st) =
     (None, i + length (concat pb),
          commit (jobs_writes R queue (priv_vectorize st) (calls st) i (heap st) pb)
            (jobs_allocs (priv_vectorize st) (calls st) pb)
            (st\<lparr>calls := calls st + length pb,
                 trace := trace st @ invokes (calls st) pb @ [AllSettled]\<rparr>))"
proof -
  let ?e = "priv_vectorize st"
  let ?c = "calls st"
  let ?A = "map (\<lambda>(n, b). call_engine ?e n b) (zip [?c ..< ?c + length pb] pb)"
  let ?st1 = "st\<lparr>calls := calls st + length pb, trace := trace st @ invokes (calls st) pb @ [AllSettled]\<rparr>"
  have arr: "length (snd (?A ! j)) = length (pb ! j) \<and> None \<notin> set (snd (?A ! j)) \<and>
      good_outcome R (settled_as ?e (?c + j) (pb ! j))"
    if "j < length pb" for j
    using well_behaved_nth [OF wb that] that by (simp add: behaves_length behaves_good behaves_dense)
  from forEach_wave [of pb 0 "length pb" i queue "\<lambda>j. snd (?A ! j)" R ?e ?c ?st1, OF _ _ _ arr] room
  have fe: "forEach (\<lambda>result j. distribute R queue (snd (?A ! j)) result)
     (map Some (map (\<lambda>(n, b). settled_as ?e n b) (zip [?c ..< ?c + length pb] pb))) 0 (i, ?st1) =
   (None, i + length (concat pb),
        commit (jobs_writes R queue ?e ?c i (heap st) pb) (jobs_allocs ?e ?c pb) ?st1)"
    by simp
  show ?thesis
    unfolding wave_def vectorizeValues_def [abs_def]
    by (simp add: Let_def those_settled [OF wb, simplified] fe [simplified])
qed

lemma length_concat_take_drop:
  "length (concat (take n bs)) + length (concat (drop n bs)) = length (concat bs)"
  by (metis append_take_drop_id concat_append length_append)

lemma store_all_append: "store_all m (xs @ ys) = store_all (store_all m xs) ys"
  by (simp add: store_all_def)

lemma dispatch_loop_closed:
  "i + length (concat bs) \<le> length queue \<Longrightarrow>
   well_behaved R (priv_vectorize st) (calls st) (take (fuel * maximumParallelRequests st) bs) \<Longrightarrow>
   dispatch_loop fuel R queue bs (i, st) =
     (None, drop (fuel * maximumParallelRequests st) bs,
          i + length (concat (take (fuel * maximumParallelRequests st) bs)),
          after_loop R queue fuel i bs st)"
proof (induction fuel arbitrary: bs i st)
  case 0
  then show ?case by (simp add: after_loop_def store_all_def)
next
  case (Suc fuel)
  let ?m = "maximumParallelRequests st"
  show ?case
  proof (cases "bs = []")
    case True
    then show ?thesis by (simp add: after_loop_def store_all_def)
  next
    case False
    let ?pb = "take ?m bs"
    let ?e = "priv_vectorize st"
    let ?W = "jobs_writes R queue ?e (calls st) i (heap st) ?pb"
    let ?A = "jobs_allocs ?e (calls st) ?pb"
    let ?st1 = "commit ?W ?A (st\<lparr>calls := calls st + length ?pb,
                 trace := trace st @ invokes (calls st) ?pb @ [AllSettled]\<rparr>)"
    have tk: "take (Suc fuel * ?m) bs = ?pb @ take (fuel * ?m) (drop ?m bs)"
      by (simp add: take_add)
    have wb1: "well_behaved R ?e (calls st) ?pb"
      and wb2: "well_behaved R ?e (calls st + length ?pb) (take (fuel * ?m) (drop ?m bs))"
      using Suc.prems(2) unfolding tk well_behaved_append by simp_all
    have le1: "i + length (concat ?pb) \<le> length queue"
      using Suc.prems(1) length_concat_take_drop [of ?m bs] by simp
    have le2: "(i + length (concat ?pb)) + length (concat (drop ?m bs)) \<le> length queue"
      using Suc.prems(1) length_concat_take_drop [of ?m bs] by simp
    have w: "wave R queue ?pb (i, st) = (None, i + length (concat ?pb), ?st1)"
      by (rule wave_commit [OF le1 wb1])
    have m1: "maximumParallelRequests ?st1 = ?m" "priv_vectorize ?st1 = ?e"
      "calls ?st1 = calls st + length ?pb"
      by (simp_all add: commit_def)
    have wb2': "well_behaved R (priv_vectorize ?st1) (calls ?st1)
        (take (fuel * maximumParallelRequests ?st1) (drop ?m bs))"
      unfolding m1 by (rule wb2)
    have dr: "drop (Suc fuel * ?m) bs = drop (fuel * ?m) (drop ?m bs)"
      by (simp add: add.commute)
    have mn: "min (length bs) ?m + min (length bs - ?m) (fuel * ?m) = min (length bs) (Suc fuel * ?m)"
    proof -
      have "\<And>n m k :: nat. min n m + min (n - m) k = min n (m + k)" by arith
      then show ?thesis by simp
    qed
    have st: "after_loop R queue fuel (i + length (concat ?pb)) (drop ?m bs) ?st1 =
        after_loop R queue (Suc fuel) i bs st"
      using False mn
      by (simp add: after_loop_def Let_def commit_def tk jobs_writes_append jobs_allocs_append
          store_all_append add.assoc del: mult_Suc)
    have "dispatch_loop (Suc fuel) R queue bs (i, st) =
        dispatch_loop fuel R queue (drop ?m bs) (i + length (concat ?pb), ?st1)"
      using False by (simp add: w Let_def)
    also have "\<dots> = (None, drop (fuel * ?m) (drop ?m bs),
        i + length (concat ?pb) + length (concat (take (fuel * ?m) (drop ?m bs))),
        after_loop R queue fuel (i + length (concat ?pb)) (drop ?m bs) ?st1)"
      using Suc.IH [OF le2 wb2'] by (simp only: m1)
    also have "\<dots> = (None, drop (Suc fuel * ?m) bs,
          i + length (concat (take (Suc fuel * ?m) bs)),
          after_loop R queue (Suc fuel) i bs st)"
      by (simp only: st dr tk concat_append length_append add.assoc)
    finally show ?thesis .
  qed
qed

subsection \<open>Traces\<close>

lemma writes_of_append: "writes_of (xs @ ys) = writes_of xs @ writes_of ys"
  by (induction xs rule: writes_of.induct) simp_all

lemma writes_of_invokes: "writes_of (invokes c bs) = []"
proof -
  have "\<And>ps. writes_of (map (\<lambda>(n, b). Invoke n b) ps) = []"
  proof -
    fix ps :: "(nat \<times> string list) list"
    show "writes_of (map (\<lambda>(n, b). Invoke n b) ps) = []"
      by (induction ps) auto
  qed
  then show ?thesis by (simp add: invokes_def)
qed

lemma writes_of_write_events: "writes_of (map write_event W) = W"
  by (induction W) (simp_all add: write_event_def)




lemma invokes_Nil: "invokes c [] = []"
  by (simp add: invokes_def)

lemma invokes_Cons: "invokes c (b # bs) = Invoke c b # invokes (Suc c) bs"
  by (simp add: invokes_def upt_conv_Cons del: upt_Suc)

lemma waves_in_invokes: "waves_in (invokes c pb @ es) cur = waves_in es (cur @ pb)"
  by (induction pb arbitrary: c cur) (simp_all add: invokes_Nil invokes_Cons)

lemma waves_in_write_events: "waves_in (map write_event W @ es) cur = waves_in es cur"
  by (induction W) (simp_all add: write_event_def)

lemma invocations_append: "invocations (xs @ ys) = invocations xs @ invocations ys"
  by (induction xs rule: invocations.induct) simp_all

lemma invocations_invokes: "invocations (invokes c pb) = zip [c ..< c + length pb] pb"
  by (induction pb arbitrary: c) (simp_all add: invokes_Nil invokes_Cons upt_conv_Cons del: upt_Suc)

lemma invocations_write_events: "invocations (map write_event W) = []"
  by (induction W) (simp_all add: write_event_def)

lemma zip_upt_append:
  "zip [c ..< c + length (xs @ ys)] (xs @ ys) =
     zip [c ..< c + length xs] xs @ zip [c + length xs ..< c + length xs + length ys] ys"
proof -
  have "[c ..< c + length (xs @ ys)] = [c ..< c + length xs] @ [c + length xs ..< c + length xs + length ys]"
    using upt_add_eq_append [of c "c + length xs" "length ys"] by (simp add: add.assoc)
  then show ?thesis by simp
qed



lemma wave_split_Nil: "wave_split k m [] = []"
  by (cases k) simp_all

lemma peak_lower: "n \<le> peak n es"
  by (induction n es rule: peak.induct) (simp_all add: max.coboundedI1)


lemma peak_invokes: "peak n (invokes c pb @ es) = max n (peak (n + length pb) es)"
proof (induction pb arbitrary: n c)
  case Nil
  then show ?case using peak_lower [of n es] by (simp add: invokes_Nil max_def)
next
  case (Cons b pb)
  then show ?case
    using peak_lower [of "Suc (n + length pb)" es] by (simp add: invokes_Cons max_def)
qed

lemma peak_write_events: "peak n (map write_event W @ es) = peak n es"
  by (induction W) (simp_all add: write_event_def)

subsection \<open>One wave and the loop, whatever the engine does\<close>

lemma effect_refl: "effect st st"
  unfolding effect_def using commit_Nil [of st] by (metis empty_iff list.set(1))

lemma effect_trans: "effect st st1 \<Longrightarrow> effect st1 st2 \<Longrightarrow> effect st st2"
  unfolding effect_def by (auto simp: commit_commit) (metis Un_iff set_append)

lemma effect_frame:
  "effect st st' \<Longrightarrow> priv_queue st' = priv_queue st \<and> heap st \<le> heap st'"
  by (auto simp: effect_def commit_def)

lemma instanceof_Error_truthy: "instanceof_Error v \<Longrightarrow> truthy v"
  by (cases v) simp_all

lemma effect_results_set:
  "truthy v \<Longrightarrow> effect st (snd (snd (results_set queue v (i, st))))"
proof (cases "i < length queue")
  case True
  assume "truthy v"
  then show ?thesis
    unfolding effect_def results_set_commit [OF True]
    by (intro exI [of _ "[(ident (queue ! i), v)]"] exI [of _ 0]) simp
next
  case False
  then show ?thesis by (simp add: results_set_def effect_refl)
qed

lemma effect_alloc: "effect st (snd (alloc_Error msg st))"
  unfolding effect_def
  by (intro exI [of _ "[]"] exI [of _ "Suc 0"]) (simp add: alloc_Error_def commit_def store_all_def)

lemma effect_rejected_item:
  "effect st (snd (snd (rejected_item R queue reason (i, st))))"
proof (cases "instanceof_Error reason")
  case True
  then show ?thesis
    by (simp add: rejected_item_def effect_results_set instanceof_Error_truthy)
next
  case False
  show ?thesis
  proof (cases "new_Error R reason st")
    case (Inl e)
    then show ?thesis using False by (simp add: rejected_item_def effect_refl)
  next
    case (Inr p)
    obtain reason' st1 where p: "p = (reason', st1)" by (cases p)
    have "\<exists>msg. alloc_Error msg st = (reason', st1)"
      using Inr p by (auto simp: new_Error_def split: if_splits sum.splits)
    then obtain msg where al: "(reason', st1) = alloc_Error msg st" by metis
    then have t: "truthy reason'" by (simp add: alloc_Error_def)
    have e1: "effect st st1" using effect_alloc [of st msg] al [symmetric] by simp
    have "effect st1 (snd (snd (results_set queue reason' (i, st1))))"
      by (rule effect_results_set [OF t])
    then show ?thesis
      using False Inr p e1 by (simp add: rejected_item_def) (rule effect_trans)
  qed
qed

lemma effect_fulfilled_item:
  "effect st (snd (snd (fulfilled_item queue vectors k (i, st))))"
  by (simp add: fulfilled_item_def effect_results_set)

lemma forEach_effect:
  fixes s :: "nat \<times> world"
  assumes "\<And>x k s. effect (snd s) (snd (snd (f x k s)))"
  shows "effect (snd s) (snd (snd (forEach f xs k s)))"
proof (induction xs arbitrary: k s)
  case Nil
  then show ?case by (simp add: effect_refl)
next
  case (Cons x xs)
  show ?case
  proof (cases x)
    case None
    then show ?thesis using Cons.IH [where k = "Suc k" and s = s] by simp
  next
    case (Some y)
    obtain e s1 where f: "f y k s = (e, s1)" by (cases "f y k s")
    have e1: "effect (snd s) (snd s1)" using assms [of s y k] f by simp
    show ?thesis
    proof (cases e)
      case None
      then show ?thesis
        using Some f e1 Cons.IH [where k = "Suc k" and s = s1] by (simp add: effect_trans)
    next
      case (Some err)
      then show ?thesis using \<open>x = Some y\<close> f e1 by simp
    qed
  qed
qed

lemma effect_distribute:
  "effect (snd s) (snd (snd (distribute R queue b r s)))"
proof (cases r)
  case (Fulfilled v)
  have "effect (snd s) (snd (snd (forEach (\<lambda>str k. fulfilled_item queue vs k) b 0 s)))" for vs
    by (rule forEach_effect) (metis effect_fulfilled_item prod.collapse)
  then show ?thesis using Fulfilled by (simp add: distribute_def Let_def)
next
  case (Rejected reason)
  have "effect (snd s) (snd (snd (forEach (\<lambda>str k. rejected_item R queue reason) b 0 s)))"
    by (rule forEach_effect) (metis effect_rejected_item prod.collapse)
  then show ?thesis using Rejected by (simp add: distribute_def)
qed

lemma those_None_nonempty: "those xs = None \<Longrightarrow> xs \<noteq> []"
  by (cases xs) simp_all

lemma wave_effect:
  assumes "wave R queue pb (i, st) = (h, i', st')"
  shows "(h = Some Stuck \<and> pb \<noteq> [] \<and>
          st' = st\<lparr>calls := calls st + length pb, trace := trace st @ invokes (calls st) pb\<rparr>) \<or>
         (h \<noteq> Some Stuck \<and>
          effect (st\<lparr>calls := calls st + length pb,
                      trace := trace st @ invokes (calls st) pb @ [AllSettled]\<rparr>) st')"
proof -
  let ?c = "calls st"
  let ?A = "map (\<lambda>(n, b). vectorizeValues st n b) (zip [?c ..< ?c + length pb] pb)"
  show ?thesis
  proof (cases "those (map fst ?A)")
    case None
    from those_None_nonempty [OF None] have "pb \<noteq> []" by auto
    then show ?thesis using assms None by (simp add: wave_def Let_def)
  next
    case (Some pv)
    let ?st1 = "st\<lparr>calls := calls st + length pb, trace := trace st @ invokes (calls st) pb @ [AllSettled]\<rparr>"
    let ?F = "forEach (\<lambda>result j. distribute R queue (snd (?A ! j)) result) (map Some pv) 0 (i, ?st1)"
    have "effect (snd (i, ?st1)) (snd (snd ?F))"
      by (rule forEach_effect) (rule effect_distribute)
    moreover have "st' = snd (snd ?F)" "h = map_option Threw (fst ?F)"
      using assms Some by (simp_all add: wave_def Let_def split: prod.splits)
    ultimately show ?thesis by (cases "fst ?F") simp_all
  qed
qed

lemma wave_shape:
  assumes "wave R queue pb (i, st) = (h, i', st')"
  shows "\<exists>ws. trace st' = trace st @ invokes (calls st) pb @
                  (if h = Some Stuck then [] else AllSettled # map write_event ws) \<and>
     (h = Some Stuck \<longrightarrow> ws = [] \<and> pb \<noteq> []) \<and>
     (\<forall>w \<in> set ws. truthy (snd w)) \<and>
     priv_results st' = store_all (priv_results st) ws \<and>
     maximumParallelRequests st' = maximumParallelRequests st \<and>
     priv_vectorize st' = priv_vectorize st \<and>
     calls st' = calls st + length pb"
proof -
  from wave_effect [OF assms] show ?thesis
  proof
    assume "h = Some Stuck \<and> pb \<noteq> [] \<and>
          st' = st\<lparr>calls := calls st + length pb, trace := trace st @ invokes (calls st) pb\<rparr>"
    then show ?thesis by (intro exI [of _ "[]"]) (simp add: store_all_def)
  next
    assume a: "h \<noteq> Some Stuck \<and>
          effect (st\<lparr>calls := calls st + length pb,
                      trace := trace st @ invokes (calls st) pb @ [AllSettled]\<rparr>) st'"
    then obtain ws a where st': "st' = commit ws a (st\<lparr>calls := calls st + length pb,
                      trace := trace st @ invokes (calls st) pb @ [AllSettled]\<rparr>)"
      and t: "\<forall>w \<in> set ws. truthy (snd w)"
      unfolding effect_def by blast
    show ?thesis
      using a t by (intro exI [of _ ws]) (simp add: st' commit_def)
  qed
qed

lemma wave_frame:
  assumes "wave R queue pb (i, st) = (h, i', st')"
  shows "priv_queue st' = priv_queue st \<and> heap st \<le> heap st'"
  using wave_effect [OF assms] effect_frame by fastforce

lemma dispatch_loop_shape:
  "dispatch_loop fuel R queue bs (i, st) = (h, rest, i', st') \<Longrightarrow>
   \<exists>k tr. k \<le> fuel \<and> trace st' = trace st @ tr \<and>
     waves_in tr [] = wave_split k (maximumParallelRequests st) bs \<and>
     invocations tr =
       zip [calls st ..< calls st + length (take (k * maximumParallelRequests st) bs)]
         (take (k * maximumParallelRequests st) bs) \<and>
     peak 0 tr \<le> maximumParallelRequests st \<and>
     (\<forall>w \<in> set (writes_of tr). truthy (snd w)) \<and>
     priv_results st' = store_all (priv_results st) (writes_of tr) \<and>
     (h = None \<longrightarrow> k = fuel) \<and> rest = drop (k * maximumParallelRequests st) bs"
proof (induction fuel arbitrary: bs i st)
  case 0
  then show ?case
    by (intro exI [of _ 0] exI [of _ "[]"]) (simp add: store_all_def)
next
  case (Suc fuel)
  let ?m = "maximumParallelRequests st"
  let ?c = "calls st"
  show ?case
  proof (cases "bs = []")
    case True
    then show ?thesis using Suc.prems
      by (intro exI [of _ "Suc fuel"] exI [of _ "[]"]) (simp add: store_all_def wave_split_Nil)
  next
    case False
    let ?pb = "take ?m bs"
    obtain hw i1 st1 where w: "wave R queue ?pb (i, st) = (hw, i1, st1)"
      by (cases "wave R queue ?pb (i, st)")
    from wave_shape [OF w] obtain ws where
      tr1: "trace st1 = trace st @ invokes ?c ?pb @
              (if hw = Some Stuck then [] else AllSettled # map write_event ws)"
      and stuck: "hw = Some Stuck \<longrightarrow> ws = [] \<and> ?pb \<noteq> []"
      and tws: "\<forall>w \<in> set ws. truthy (snd w)"
      and res1: "priv_results st1 = store_all (priv_results st) ws"
      and m1: "maximumParallelRequests st1 = ?m"
      and c1: "calls st1 = ?c + length ?pb"
      by blast
    have lpb: "length ?pb \<le> ?m" by simp
    show ?thesis
    proof (cases hw)
      case (Some x)
      then have res: "h = Some x" "rest = drop ?m bs" "st' = st1"
        using Suc.prems False w by (simp_all add: Let_def)
      let ?tr = "invokes ?c ?pb @ (if hw = Some Stuck then [] else AllSettled # map write_event ws)"
      have wv: "waves_in ?tr [] = [?pb]"
        using stuck waves_in_write_events [of ws "[]" "[]"]
        by (auto simp: waves_in_invokes)
      have inv: "invocations ?tr = zip [?c ..< ?c + length ?pb] ?pb"
        by (simp add: invocations_append invocations_invokes invocations_write_events)
      have pk: "peak 0 ?tr \<le> ?m"
        using peak_write_events [of 0 ws "[]"] by (simp add: peak_invokes)
      have wr: "writes_of ?tr = ws"
        using stuck by (simp add: writes_of_append writes_of_invokes writes_of_write_events)
      show ?thesis
        apply (rule exI [of _ "Suc 0"], rule exI [of _ ?tr])
        apply (intro conjI)
        subgoal by simp
        subgoal using res tr1 by simp
        subgoal using wv False by simp
        subgoal using inv by simp
        subgoal by (rule pk)
        subgoal using wr tws by simp
        subgoal using wr res res1 by simp
        subgoal using res by simp
        subgoal using res by simp
        done
    next
      case None
      then have run: "dispatch_loop fuel R queue (drop ?m bs) (i1, st1) = (h, rest, i', st')"
        using Suc.prems False w by (simp add: Let_def)
      from Suc.IH [OF run] obtain k tr where
        k: "k \<le> fuel" and tr: "trace st' = trace st1 @ tr"
        and wv: "waves_in tr [] = wave_split k ?m (drop ?m bs)"
        and inv: "invocations tr =
          zip [?c + length ?pb ..< ?c + length ?pb + length (take (k * ?m) (drop ?m bs))]
            (take (k * ?m) (drop ?m bs))"
        and pk: "peak 0 tr \<le> ?m"
        and tw: "\<forall>w \<in> set (writes_of tr). truthy (snd w)"
        and res: "priv_results st' = store_all (priv_results st1) (writes_of tr)"
        and hk: "h = None \<longrightarrow> k = fuel"
        and rest: "rest = drop (k * ?m) (drop ?m bs)"
        unfolding m1 c1 by blast
      let ?tr = "invokes ?c ?pb @ AllSettled # map write_event ws @ tr"
      have tk: "take (Suc k * ?m) bs = ?pb @ take (k * ?m) (drop ?m bs)"
        by (simp add: take_add)
      have wv': "waves_in ?tr [] = wave_split (Suc k) ?m bs"
        using False by (simp add: waves_in_invokes waves_in_write_events wv)
      have inv': "invocations ?tr =
          zip [?c ..< ?c + length (take (Suc k * ?m) bs)] (take (Suc k * ?m) bs)"
        unfolding tk zip_upt_append
        using invocations_write_events [of ws]
        by (simp add: invocations_append invocations_invokes inv)
      have pk': "peak 0 ?tr \<le> ?m"
        using pk by (simp add: peak_invokes peak_write_events)
      have wr: "writes_of ?tr = ws @ writes_of tr"
        by (simp add: writes_of_append writes_of_invokes writes_of_write_events)
      show ?thesis
        apply (rule exI [of _ "Suc k"], rule exI [of _ ?tr])
        apply (intro conjI)
        subgoal using k by simp
        subgoal using tr tr1 None by simp
        subgoal by (rule wv')
        subgoal by (rule inv')
        subgoal by (rule pk')
        subgoal using wr tws tw by auto
        subgoal using wr res res1 by (simp add: store_all_append)
        subgoal using hk by simp
        subgoal using rest by (simp add: add.commute)
        done
    qed
  qed
qed

lemma dispatch_loop_frame:
  "dispatch_loop fuel R queue bs (i, st) = (h, rest, i', st') \<Longrightarrow>
   priv_queue st' = priv_queue st \<and> heap st \<le> heap st'"
proof (induction fuel arbitrary: bs i st)
  case 0
  then show ?case by simp
next
  case (Suc fuel)
  show ?case
  proof (cases "bs = []")
    case True
    then show ?thesis using Suc.prems by simp
  next
    case False
    let ?pb = "take (maximumParallelRequests st) bs"
    obtain hw i1 st1 where w: "wave R queue ?pb (i, st) = (hw, i1, st1)"
      by (cases "wave R queue ?pb (i, st)")
    note f1 = wave_frame [OF w]
    show ?thesis
    proof (cases hw)
      case (Some x)
      then show ?thesis using Suc.prems False w f1 by (simp add: Let_def)
    next
      case None
      then have "dispatch_loop fuel R queue (drop (maximumParallelRequests st) bs) (i1, st1) = (h, rest, i', st')"
        using Suc.prems False w by (simp add: Let_def)
      from Suc.IH [OF this] f1 show ?thesis by simp
    qed
  qed
qed

subsection \<open>The stores of a run\<close>

lemma writes_of_loop_events:
  "writes_of (loop_events R queue e m fuel c i h bs) = jobs_writes R queue e c i h (take (fuel * m) bs)"
proof (induction fuel arbitrary: c i h bs)
  case 0
  then show ?case by simp
next
  case (Suc fuel)
  have tk: "take (Suc fuel * m) bs = take m bs @ take (fuel * m) (drop m bs)"
    by (simp add: take_add)
  show ?case
    by (simp add: writes_of_append writes_of_invokes writes_of_write_events Suc.IH tk
        jobs_writes_append del: mult_Suc)
qed

lemma length_batch_writes: "length (batch_writes R queue r i h n) = n"
  by (simp add: batch_writes_def)

lemma length_jobs_writes: "length (jobs_writes R queue e c i h bs) = length (concat bs)"
  by (induction bs arbitrary: c i h) (simp_all add: length_batch_writes)

lemma jobs_writes_at:
  "p < length (concat bs) \<Longrightarrow>
   \<exists>j k. locate bs p = Some (j, k) \<and> j < length bs \<and> k < length (bs ! j) \<and>
     concat bs ! p = bs ! j ! k \<and>
     jobs_writes R queue e c i h bs ! p =
       (ident (queue ! (i + p)),
        written R (settled_as e (c + j) (bs ! j)) (h + jobs_allocs e c (take j bs)) k)"
proof (induction bs arbitrary: c i h p)
  case Nil
  then show ?case by simp
next
  case (Cons b bs)
  show ?case
  proof (cases "p < length b")
    case True
    then show ?thesis
      by (simp add: nth_append length_batch_writes batch_writes_def)
  next
    case False
    then have p': "p - length b < length (concat bs)" using Cons.prems by simp
    from Cons.IH [OF p', of "Suc c" "i + length b" "h + allocs (settled_as e c b) (length b)"]
    obtain j k where jk: "locate bs (p - length b) = Some (j, k)" "j < length bs" "k < length (bs ! j)"
      "concat bs ! (p - length b) = bs ! j ! k"
      "jobs_writes R queue e (Suc c) (i + length b) (h + allocs (settled_as e c b) (length b)) bs ! (p - length b) =
       (ident (queue ! (i + length b + (p - length b))),
        written R (settled_as e (Suc c + j) (bs ! j))
          (h + allocs (settled_as e c b) (length b) + jobs_allocs e (Suc c) (take j bs)) k)"
      by blast
    have ip: "i + length b + (p - length b) = i + p" using False by simp
    show ?thesis
      using False jk by (simp add: nth_append length_batch_writes ip add.assoc)
  qed
qed

lemma locate_take:
  "p < length (concat (take n bs)) \<Longrightarrow> locate (take n bs) p = locate bs p"
proof (induction bs arbitrary: n p)
  case Nil
  then show ?case by simp
next
  case (Cons b bs)
  show ?case
  proof (cases n)
    case 0
    then show ?thesis using Cons.prems by simp
  next
    case (Suc n')
    then show ?thesis using Cons.prems Cons.IH [of "p - length b" n'] by auto
  qed
qed

lemma as_array_not_array: "\<not> isArray v \<Longrightarrow> as_array v = []"
  by (cases v) (simp_all add: as_array_def)

lemma written_represents:
  "good_outcome R r \<Longrightarrow> represents R (outcome_of r k) (written R r h k)"
  by (cases r)
    (auto simp: represents_def outcome_of_def written_def as_array_not_array good_outcome_def
      has_message_def message_of_def split: sum.splits)

lemma message_of_has_message:
  "has_message R reason \<Longrightarrow>
   (if reason = JUndefined then message_of R reason = [] else ToString R reason = Inr (message_of R reason))"
  by (auto simp: has_message_def message_of_def split: sum.splits)

lemma convert_all_nth:
  "convert_all R queue = Inr converted \<Longrightarrow>
   length converted = length queue \<and>
   (\<forall>p < length queue. convertToString R (val (queue ! p)) = Inr (converted ! p))"
proof (induction queue arbitrary: converted)
  case Nil
  then show ?case by simp
next
  case (Cons item queue)
  then show ?case
    by (auto simp: nth_Cons split: sum.splits nat.splits)
qed

lemma those_nth:
  "those xs = Some ys \<Longrightarrow> length ys = length xs \<and> (\<forall>p < length xs. xs ! p = Some (ys ! p))"
proof (induction xs arbitrary: ys)
  case Nil
  then show ?case by simp
next
  case (Cons x xs)
  then show ?case
    by (auto simp: nth_Cons split: option.splits nat.splits)
qed

lemma strings_of_nth:
  assumes "strings_of R queue = Some strValues"
  shows "length strValues = length queue"
    and "p < length queue \<Longrightarrow> convertToString R (val (queue ! p)) = Inr (Some (strValues ! p))"
proof -
  from assms obtain converted where c: "convert_all R queue = Inr converted"
    and t: "those converted = Some strValues"
    by (auto simp: strings_of_def split: sum.splits)
  from convert_all_nth [OF c] those_nth [OF t]
  show "length strValues = length queue"
    and "p < length queue \<Longrightarrow> convertToString R (val (queue ! p)) = Inr (Some (strValues ! p))"
    by simp_all
qed

lemma length_concat_batches_of:
  "strings_of R queue = Some strValues \<Longrightarrow> length (concat (batches_of R queue st)) = length queue"
  by (simp add: batches_of_def make_batches_concat strings_of_nth(1))

lemma batchVectorize_closed:
  assumes "strings_of R queue = Some strValues"
    and "well_behaved R (priv_vectorize st) (calls st)
           (take (fuel * maximumParallelRequests st) (batches_of R queue st))"
  shows "batchVectorize fuel R queue st =
     (None, drop (fuel * maximumParallelRequests st) (batches_of R queue st),
          length (concat (take (fuel * maximumParallelRequests st) (batches_of R queue st))),
          after_loop R queue fuel 0 (batches_of R queue st) st)"
proof -
  from assms(1) obtain converted where c: "convert_all R queue = Inr converted"
    and t: "those converted = Some strValues"
    by (auto simp: strings_of_def split: sum.splits)
  have b: "batches_of R queue st = make_batches (maximumBatchSize st) strValues"
    by (simp add: batches_of_def assms(1))
  have room: "0 + length (concat (batches_of R queue st)) \<le> length queue"
    by (simp add: length_concat_batches_of [OF assms(1)])
  show ?thesis
    using dispatch_loop_closed [OF room assms(2)]
    by (simp add: batchVectorize_def c t b)
qed

lemma batchVectorize_conversion_throws:
  "convert_all R queue = Inl e \<Longrightarrow> batchVectorize fuel R queue st = (Some (Threw e), [], 0, st)"
  by (simp add: batchVectorize_def)

lemma batchVectorize_conversion_undefined:
  "convert_all R queue = Inr converted \<Longrightarrow> None \<in> set converted \<Longrightarrow>
   batchVectorize fuel R queue st = (Some (Threw TypeError), [], 0, st)"
proof -
  assume c: "convert_all R queue = Inr converted" and n: "None \<in> set converted"
  have "those converted = None"
  proof (rule ccontr)
    assume "those converted \<noteq> None"
    then obtain ys where "those converted = Some ys" by auto
    from those_nth [OF this] n show False by (auto simp: in_set_conv_nth)
  qed
  then show ?thesis using c by (simp add: batchVectorize_def)
qed

lemma trace_after_loop:
  "trace (after_loop R queue fuel i bs st) =
     trace st @ loop_events R queue (priv_vectorize st) (maximumParallelRequests st) fuel (calls st) i (heap st) bs"
  by (simp add: after_loop_def Let_def)

lemma results_after_loop:
  "priv_results (after_loop R queue fuel i bs st) =
     store_all (priv_results st)
       (jobs_writes R queue (priv_vectorize st) (calls st) i (heap st) (take (fuel * maximumParallelRequests st) bs))"
  by (simp add: after_loop_def Let_def)

lemma jobs_writes_take_nth:
  assumes "p < length (concat (take n bs))"
  shows "jobs_writes R queue e c i h (take n bs) ! p = jobs_writes R queue e c i h bs ! p"
proof -
  have "jobs_writes R queue e c i h (take n bs @ drop n bs) ! p = jobs_writes R queue e c i h (take n bs) ! p"
    using assms by (simp only: jobs_writes_append nth_append length_jobs_writes if_True)
  then show ?thesis by simp
qed

lemma length_concat_take_le: "length (concat (take n bs)) \<le> length (concat bs)"
  using length_concat_take_drop [of n bs] by simp

lemma store_all_distinct:
  "distinct (map fst W) \<Longrightarrow> p < length W \<Longrightarrow> store_all m W (fst (W ! p)) = Some (snd (W ! p))"
proof (induction W arbitrary: p rule: rev_induct)
  case Nil
  then show ?case by simp
next
  case (snoc w W)
  show ?case
  proof (cases "p < length W")
    case True
    then have "W ! p \<in> set W" by simp
    then have "fst (W ! p) \<in> fst ` set W" by (rule imageI)
    moreover have "fst w \<notin> fst ` set W" using snoc.prems(1) by simp
    ultimately have "fst (W ! p) \<noteq> fst w" by metis
    moreover have "distinct (map fst W)" using snoc.prems(1) by simp
    ultimately show ?thesis
      using True snoc.IH [of p] by (simp add: store_all_def nth_append split_beta)
  next
    case False
    then have "p = length W" using snoc.prems(2) by simp
    then show ?thesis by (simp add: store_all_def split_beta)
  qed
qed

lemma store_all_other: "key \<notin> fst ` set W \<Longrightarrow> store_all m W key = m key"
  by (induction W rule: rev_induct) (auto simp: store_all_def split_beta)

lemma map_fst_jobs_writes:
  assumes "i + length (concat bs) \<le> length queue"
  shows "map fst (jobs_writes R queue e c i h bs) = map ident (take (length (concat bs)) (drop i queue))"
proof (rule nth_equalityI)
  show "length (map fst (jobs_writes R queue e c i h bs)) =
      length (map ident (take (length (concat bs)) (drop i queue)))"
    using assms by (simp add: length_jobs_writes)
next
  fix p assume "p < length (map fst (jobs_writes R queue e c i h bs))"
  then have p: "p < length (concat bs)" by (simp add: length_jobs_writes)
  from jobs_writes_at [OF p, of R queue e c i h]
  have "fst (jobs_writes R queue e c i h bs ! p) = ident (queue ! (i + p))" by auto
  then show "map fst (jobs_writes R queue e c i h bs) ! p =
      map ident (take (length (concat bs)) (drop i queue)) ! p"
    using p assms by (simp add: length_jobs_writes)
qed

lemma flush_frame:
  "priv_queue (flush_result fuel R queue st) = priv_queue st \<and> heap st \<le> heap (flush_result fuel R queue st)"
proof (cases "strings_of R queue")
  case None
  then show ?thesis
    by (auto simp: flush_result_def batchVectorize_def strings_of_def split: sum.splits option.splits)
next
  case (Some strValues)
  obtain h rest i' st' where run:
    "dispatch_loop fuel R queue (make_batches (maximumBatchSize st) strValues) (0, st) = (h, rest, i', st')"
    by (cases "dispatch_loop fuel R queue (make_batches (maximumBatchSize st) strValues) (0, st)")
  from Some run have "flush_result fuel R queue st = st'"
    by (auto simp: flush_result_def batchVectorize_def strings_of_def split: sum.splits option.splits)
  then show ?thesis using dispatch_loop_frame [OF run] by simp
qed

lemma flush_shape:
  "\<exists>tr. trace (flush_result fuel R queue st) = trace st @ tr \<and>
     (\<forall>w \<in> set (writes_of tr). truthy (snd w)) \<and>
     priv_results (flush_result fuel R queue st) = store_all (priv_results st) (writes_of tr)"
proof (cases "strings_of R queue")
  case None
  then have "flush_result fuel R queue st = st"
    by (auto simp: flush_result_def batchVectorize_def strings_of_def split: sum.splits option.splits)
  then show ?thesis by (intro exI [of _ "[]"]) (simp add: store_all_def)
next
  case (Some strValues)
  obtain h rest i' st' where run:
    "dispatch_loop fuel R queue (make_batches (maximumBatchSize st) strValues) (0, st) = (h, rest, i', st')"
    by (cases "dispatch_loop fuel R queue (make_batches (maximumBatchSize st) strValues) (0, st)")
  from Some run have "flush_result fuel R queue st = st'"
    by (auto simp: flush_result_def batchVectorize_def strings_of_def split: sum.splits option.splits)
  then show ?thesis using dispatch_loop_shape [OF run] by auto
qed

subsection \<open>Counting waves\<close>




subsection \<open>The stores of a run, by position\<close>

lemma flush_writes_closed:
  assumes "strings_of R queue = Some strValues"
    and "well_behaved R (priv_vectorize st) (calls st)
           (take (fuel * maximumParallelRequests st) (batches_of R queue st))"
  shows "flush_writes fuel R queue st =
     jobs_writes R queue (priv_vectorize st) (calls st) 0 (heap st)
       (take (fuel * maximumParallelRequests st) (batches_of R queue st))"
  by (simp add: flush_writes_def flush_result_def batchVectorize_closed [OF assms] trace_after_loop
      writes_of_loop_events)

lemma flush_writes_at:
  assumes s: "strings_of R queue = Some strValues"
    and wb: "well_behaved R (priv_vectorize st) (calls st)
           (take (fuel * maximumParallelRequests st) (batches_of R queue st))"
    and p: "p < length (flush_writes fuel R queue st)"
  shows "\<exists>j k. locate (batches_of R queue st) p = Some (j, k) \<and>
     behaves R (priv_vectorize st) (calls st + j) (batches_of R queue st ! j) \<and>
     flush_writes fuel R queue st ! p =
       (ident (queue ! p),
        written R (settled_as (priv_vectorize st) (calls st + j) (batches_of R queue st ! j))
          (heap st + jobs_allocs (priv_vectorize st) (calls st) (take j (batches_of R queue st))) k)"
proof -
  let ?bs = "batches_of R queue st"
  let ?n = "fuel * maximumParallelRequests st"
  have pt: "p < length (concat (take ?n ?bs))"
    using p by (simp add: flush_writes_closed [OF s wb] length_jobs_writes)
  from jobs_writes_at [OF pt, of R queue "priv_vectorize st" "calls st" 0 "heap st"]
  obtain j k where loc: "locate (take ?n ?bs) p = Some (j, k)" and j: "j < length (take ?n ?bs)"
    and at: "jobs_writes R queue (priv_vectorize st) (calls st) 0 (heap st) (take ?n ?bs) ! p =
       (ident (queue ! (0 + p)),
        written R (settled_as (priv_vectorize st) (calls st + j) (take ?n ?bs ! j))
          (heap st + jobs_allocs (priv_vectorize st) (calls st) (take j (take ?n ?bs))) k)"
    by blast
  have jn: "j < ?n" "j < length ?bs" using j by simp_all
  have nth: "take ?n ?bs ! j = ?bs ! j" using jn by simp
  have tk: "take j (take ?n ?bs) = take j ?bs" using jn by (simp add: min_def)
  have b: "behaves R (priv_vectorize st) (calls st + j) (?bs ! j)"
    using well_behaved_nth [OF wb j] nth by simp
  show ?thesis
    using loc at b unfolding locate_take [OF pt] flush_writes_closed [OF s wb] nth tk
    by simp
qed

lemma truthy_written: "truthy (written R r h k)"
proof (cases r)
  case (Fulfilled v)
  then show ?thesis by (simp add: written_def)
next
  case (Rejected reason)
  then show ?thesis by (cases reason) (simp_all add: written_def)
qed

lemma all_truthy_store_all:
  "all_truthy m \<Longrightarrow> \<forall>w \<in> set W. truthy (snd w) \<Longrightarrow> all_truthy (store_all m W)"
proof (induction W rule: rev_induct)
  case Nil
  then show ?case by (simp add: store_all_def)
next
  case (snoc w W)
  then have "all_truthy (store_all m W)" and "truthy (snd w)" by simp_all
  then show ?case by (simp add: store_all_def all_truthy_def split_beta)
qed

lemma create_poll_pending:
  "all_truthy (priv_results st) \<Longrightarrow>
   (fst (create_poll R item st) = None) = (priv_results st (ident item) = None)"
  by (auto simp: create_poll_def all_truthy_def Let_def alloc_Error_def
      split: option.splits prod.splits sum.splits)

lemma create_poll_all_truthy:
  "all_truthy (priv_results st) \<Longrightarrow> all_truthy (priv_results (snd (create_poll R item st)))"
  by (auto simp: create_poll_def all_truthy_def Let_def alloc_Error_def
      split: option.splits if_splits sum.splits)

lemma create_poll_absent:
  "priv_results st (ident item) = None \<Longrightarrow> fst (create_poll R item st) = None"
  by (simp add: create_poll_def Let_def)

lemma create_poll_value:
  assumes "priv_results st' (ident item) = Some w" and "truthy w"
  shows "fst (create_poll R item st') =
     Some (if instanceof_Error w then Inl (Throw w)
           else if isArray w then Inr w
           else (case invalid_vector_message R (val item) of
                   Inl e \<Rightarrow> Inl e
                 | Inr msg \<Rightarrow> Inl (Throw (JError (Own (heap st')) msg))))"
  using assms
  by (simp add: create_poll_def Let_def alloc_Error_def split: sum.splits)

lemma create_poll_deletes:
  assumes "priv_results st' (ident item) = Some w" and "truthy w"
  shows "priv_results (snd (create_poll R item st')) (ident item) = None"
  using assms
  by (simp add: create_poll_def Let_def alloc_Error_def split: sum.splits)

lemma flush_writes_delivered:
  assumes s: "strings_of R queue = Some strValues"
    and wb: "well_behaved R (priv_vectorize st) (calls st)
           (take (fuel * maximumParallelRequests st) (batches_of R queue st))"
    and p: "p < length (flush_writes fuel R queue st)"
  shows "delivered R (priv_vectorize st) (calls st) (batches_of R queue st) p
     (snd (flush_writes fuel R queue st ! p))"
proof -
  from flush_writes_at [OF s wb p] obtain j k where
    loc: "locate (batches_of R queue st) p = Some (j, k)"
    and b: "behaves R (priv_vectorize st) (calls st + j) (batches_of R queue st ! j)"
    and at: "flush_writes fuel R queue st ! p =
       (ident (queue ! p),
        written R (settled_as (priv_vectorize st) (calls st + j) (batches_of R queue st ! j))
          (heap st + jobs_allocs (priv_vectorize st) (calls st) (take j (batches_of R queue st))) k)"
    by blast
  show ?thesis
    using loc at behaves_settles [OF b] written_represents [OF behaves_good [OF b]]
    by (simp add: delivered_def)
qed

subsection \<open>The items of the queue\<close>

lemma allocated_mono: "allocated h r \<Longrightarrow> h \<le> h' \<Longrightarrow> allocated h' r"
  by (cases r) simp_all

lemma fresh_queue_heap:
  assumes "fresh_queue st" and "priv_queue st' = priv_queue st" and "heap st \<le> heap st'"
  shows "fresh_queue st'"
  using assms by (auto simp: fresh_queue_def list_all_iff intro: allocated_mono)

lemma fresh_queue_initialize: "fresh_queue initialize"
  by (simp add: fresh_queue_def initialize_def)

lemma fresh_queue_create_begin:
  assumes "fresh_queue st"
  shows "fresh_queue (snd (create_begin R v st))"
proof (cases "priv_vectorize st = None")
  case True
  then show ?thesis
    using fresh_queue_heap [OF assms, of "st\<lparr>heap := Suc (heap st)\<rparr>"]
    by (simp add: create_begin_def alloc_Error_def)
next
  case False
  have old: "list_all (\<lambda>item. allocated (Suc (heap st)) (ident item)) (priv_queue st)"
    using assms by (auto simp: fresh_queue_def list_all_iff intro: allocated_mono)
  have new: "Own (heap st) \<notin> ident ` set (priv_queue st)"
  proof
    assume "Own (heap st) \<in> ident ` set (priv_queue st)"
    then obtain x where "x \<in> set (priv_queue st)" and "ident x = Own (heap st)" by auto
    then have "allocated (heap st) (Own (heap st))"
      using assms by (auto simp: fresh_queue_def list_all_iff)
    then show False by simp
  qed
  show ?thesis
    using False assms old new
    by (auto simp: create_begin_def createTimeout_def setTimeout_def fresh_queue_def Let_def)
qed

lemma fresh_queue_dequeue_begin:
  assumes "fresh_queue st"
  shows "fst (dequeue_begin st) = priv_queue st \<and> distinct (map ident (fst (dequeue_begin st))) \<and>
     fresh_queue (snd (dequeue_begin st))"
  using assms by (simp add: dequeue_begin_def fresh_queue_def Let_def)

lemma fresh_queue_on_expiry:
  assumes "fresh_queue st"
  shows "fresh_queue (snd (on_fast_expiry st))" and "fresh_queue (snd (on_wait_expiry st))"
  using assms
  by (simp_all add: on_fast_expiry_def on_wait_expiry_def dequeue_begin_def createTimeout_def
      setTimeout_def fresh_queue_def Let_def)

lemma fresh_queue_flush:
  "fresh_queue st \<Longrightarrow> fresh_queue (flush_result fuel R queue st)"
  using flush_frame [of fuel R queue st] by (auto intro: fresh_queue_heap)

subsection \<open>The small run, evaluated\<close>

lemmas run_simps =
  make_batches_def wave_def distribute_def rejected_item_def fulfilled_item_def
  results_set_def new_Error_def alloc_Error_def vectorizeValues_def call_engine_def invokes_def
  convertToString_def ToString_def strings_of_def Let_def upt_rec

lemmas example_defs =
  example_rt_def example_queue_def example_world_def example_engine_def example_final_def initialize_def

lemma example_strings: "strings_of example_rt example_queue = Some [''abcd'', ''ab'', ''c'']"
  by (simp add: example_defs run_simps)

lemma example_batches: "batches_of example_rt example_queue example_world = [[''abc''], [''ab'', ''c'']]"
  by (simp add: batches_of_def example_defs run_simps)

lemma example_dispatch:
  "dispatch_loop (Suc (Suc 0)) example_rt example_queue [[''abc''], [''ab'', ''c'']] (0, example_world) =
     (None, [], 3, example_final)"
  by (simp add: run_simps example_defs)

lemma example_run:
  "batchVectorize (Suc (Suc 0)) example_rt example_queue example_world = (None, [], 3, example_final)"
proof -
  have "batchVectorize (Suc (Suc 0)) example_rt example_queue example_world =
      dispatch_loop (Suc (Suc 0)) example_rt example_queue [[''abc''], [''ab'', ''c'']] (0, example_world)"
    by (simp add: batchVectorize_def example_defs run_simps del: dispatch_loop.simps)
  then show ?thesis by (simp only: example_dispatch)
qed

lemmas example_engines = rejecting_def fulfilling_def emptying_def pending_def example_with_def

lemma example_with_batches: "batches_of example_rt example_queue (example_with e) = [[''abc''], [''ab'', ''c'']]"
  by (simp add: batches_of_def example_defs example_engines run_simps)

lemmas flush_simps = flush_writes_def flush_result_def batchVectorize_def create_poll_def
  invalid_vector_message_def

lemma example_well_behaved:
  "well_behaved example_rt (Some example_engine) 0 [[''abc''], [''ab'', ''c'']]"
  "well_behaved example_rt (Some (rejecting (JStr ''boom''))) 0 [[''abc''], [''ab'', ''c'']]"
  "well_behaved example_rt (Some (rejecting (JError (Env 5) ''Not good!''))) 0 [[''abc''], [''ab'', ''c'']]"
  "well_behaved example_rt (Some (fulfilling v)) 0 [[''abc''], [''ab'', ''c'']]"
  by (simp_all add: behaves_def call_engine_def has_message_def ToString_def example_defs example_engines)

lemma example_rejecting_string:
  "flush_writes (Suc (Suc 0)) example_rt example_queue (example_with (rejecting (JStr ''boom''))) =
     [(Own 0, JError (Own 3) ''boom''), (Own 1, JError (Own 4) ''boom''), (Own 2, JError (Own 5) ''boom'')]"
  by (simp add: flush_writes_def flush_result_def batchVectorize_def run_simps example_defs example_engines)

lemma example_rejecting_error:
  "flush_writes (Suc (Suc 0)) example_rt example_queue (example_with (rejecting (JError (Env 5) ''Not good!''))) =
     [(Own 0, JError (Env 5) ''Not good!''), (Own 1, JError (Env 5) ''Not good!''),
      (Own 2, JError (Env 5) ''Not good!'')]"
  by (simp add: flush_writes_def flush_result_def batchVectorize_def run_simps example_defs example_engines)

lemma example_fulfilling_error:
  "flush_writes (Suc (Suc 0)) example_rt example_queue (example_with (fulfilling (JArr [JError (Env 7) ''oops'']))) =
     [(Own 0, JError (Env 7) ''oops''), (Own 1, JError (Env 7) ''oops''), (Own 2, JNum (- 1))]"
  by (simp add: flush_writes_def flush_result_def batchVectorize_def run_simps example_defs example_engines)

lemma example_fulfilling_mixed:
  "flush_writes (Suc (Suc 0)) example_rt example_queue
     (example_with (fulfilling (JArr [JArr [JNum 1], JStr ''x'']))) =
     [(Own 0, JArr [JNum 1]), (Own 1, JArr [JNum 1]), (Own 2, JStr ''x'')]"
  by (simp add: flush_writes_def flush_result_def batchVectorize_def run_simps example_defs example_engines)

lemma example_fulfilling_nonarray:
  "flush_writes (Suc (Suc 0)) example_rt example_queue (example_with (fulfilling JUndefined)) =
     [(Own 0, JNum (- 1)), (Own 1, JNum (- 1)), (Own 2, JNum (- 1))]"
  by (simp add: flush_writes_def flush_result_def batchVectorize_def run_simps example_defs example_engines)

lemma example_poll_rejected_string:
  "fst (create_poll example_rt (example_queue ! Suc 0)
         (flush_result (Suc (Suc 0)) example_rt example_queue (example_with (rejecting (JStr ''boom'')))))
     = Some (Inl (Throw (JError (Own 4) ''boom'')))"
  "fst (create_poll example_rt (example_queue ! Suc (Suc 0))
         (flush_result (Suc (Suc 0)) example_rt example_queue (example_with (rejecting (JStr ''boom'')))))
     = Some (Inl (Throw (JError (Own 5) ''boom'')))"
  by (simp_all add: flush_simps run_simps example_defs example_engines)

lemma example_poll_rejected_error:
  "fst (create_poll example_rt (example_queue ! Suc 0)
         (flush_result (Suc (Suc 0)) example_rt example_queue
            (example_with (rejecting (JError (Env 5) ''Not good!'')))))
     = Some (Inl (Throw (JError (Env 5) ''Not good!'')))"
  by (simp add: flush_simps run_simps example_defs example_engines)

lemma example_poll_fulfilled_error:
  "fst (create_poll example_rt (example_queue ! 0)
         (flush_result (Suc (Suc 0)) example_rt example_queue
            (example_with (fulfilling (JArr [JError (Env 7) ''oops''])))))
     = Some (Inl (Throw (JError (Env 7) ''oops'')))"
  by (simp add: flush_simps run_simps example_defs example_engines)

lemma example_poll_fulfilled_mixed:
  "fst (create_poll example_rt (example_queue ! Suc (Suc 0))
         (flush_result (Suc (Suc 0)) example_rt example_queue
            (example_with (fulfilling (JArr [JArr [JNum 1], JStr ''x''])))))
     = Some (Inl (Throw (JError (Own 3)
         (''Could not vectorize: vector engine did not return a valid vector for input '' @
          [CHR 0x22] @ ''c'' @ [CHR 0x22]))))"
  "fst (create_poll example_rt (example_queue ! 0)
         (flush_result (Suc (Suc 0)) example_rt example_queue
            (example_with (fulfilling (JArr [JArr [JNum 1], JStr ''x''])))))
     = Some (Inr (JArr [JNum 1]))"
  by (simp_all add: flush_simps run_simps example_defs example_engines)

lemma example_poll_fulfilled_nonarray:
  "fst (create_poll example_rt (example_queue ! 0)
         (flush_result (Suc (Suc 0)) example_rt example_queue (example_with (fulfilling JUndefined))))
     = Some (Inl (Throw (JError (Own 3)
         (''Could not vectorize: vector engine did not return a valid vector for input '' @
          [CHR 0x22] @ ''abcd'' @ [CHR 0x22]))))"
  by (simp add: flush_simps run_simps example_defs example_engines)

lemma example_message:
  "invalid_vector_message example_rt (val (example_queue ! 0)) =
     Inr (''Could not vectorize: vector engine did not return a valid vector for input '' @ [CHR 0x22] @ ''abcd'' @ [CHR 0x22])"
  by (simp add: invalid_vector_message_def ToString_def example_defs)

lemma example_poll_initial:
  "fst (create_poll example_rt (example_queue ! 0) example_world) = None"
  "fst (create_poll example_rt (example_queue ! Suc 0) example_final) = Some (Inr (JArr [JNum 1]))"
  by (simp_all add: create_poll_def Let_def example_defs)

lemma example_emptying:
  "batchVectorize (Suc (Suc 0)) example_rt example_queue (example_with emptying) =
     (None, [], 2,
      example_with emptying\<lparr>
        priv_results := [Own 0 \<mapsto> JArr [JStr ''ab''], Own 1 \<mapsto> JArr [JStr ''c'']],
        calls := 2,
        trace := [Invoke 0 [''abc''], AllSettled, Invoke 1 [''ab'', ''c''], AllSettled,
                  ResultsSet (Own 0) (JArr [JStr ''ab'']), ResultsSet (Own 1) (JArr [JStr ''c''])]\<rparr>)"
  by (simp add: batchVectorize_def run_simps example_defs example_engines)

lemma example_poll_emptying:
  "flush_writes (Suc (Suc 0)) example_rt example_queue (example_with emptying) =
     [(Own 0, JArr [JStr ''ab'']), (Own 1, JArr [JStr ''c''])]"
  "fst (create_poll example_rt (example_queue ! 0)
         (flush_result (Suc (Suc 0)) example_rt example_queue (example_with emptying)))
     = Some (Inr (JArr [JStr ''ab'']))"
  "fst (create_poll example_rt (example_queue ! Suc (Suc 0))
         (flush_result (Suc (Suc 0)) example_rt example_queue (example_with emptying)))
     = None"
  by (simp_all add: flush_writes_def flush_result_def example_emptying create_poll_def Let_def)
    (simp_all add: example_defs example_engines)


lemma pending_never_ends:
  "bs \<noteq> [] \<Longrightarrow>
   fst (dispatch_loop (Suc fuel) R queue bs (i, example_with pending)) = Some Stuck"
proof -
  assume bs: "bs \<noteq> []"
  then obtain b rest where "bs = b # rest" by (cases bs) auto
  then show ?thesis
    by (simp add: wave_def vectorizeValues_def call_engine_def Let_def upt_rec
        example_engines example_defs)
qed

section \<open>Claims about the split\<close>

text \<open>
  C2. Order preservation of the batch split: the split is a function of the item strings
  and the budget, and concatenating the batches in order gives back the items in their
  original order, each once, in its truncated form.
\<close>

theorem split_preserves_order:
  "concat (make_batches M strValues) = map (take M) strValues"
  by (rule make_batches_concat)

text \<open>
  C3. Batch size bound: every string handed to a batch is truncated to at most
  \<open>maximumBatchSize\<close> characters; no batch has a total length over the budget unless it
  holds exactly one item (in fact no batch at all is over the budget); and an item whose
  truncated length is the whole budget makes a batch of its own.
\<close>

theorem batch_size_bound:
  "(\<forall>str \<in> set (concat (make_batches M strValues)). length str \<le> M) \<and>
   (\<forall>b \<in> set (make_batches M strValues). total b \<le> M \<or> length b = 1) \<and>
   (\<forall>b \<in> set (make_batches M strValues). total b \<le> M) \<and>
   (M \<le> length s \<longrightarrow> make_batches M [s] = [[take M s]] \<and> total [take M s] = M)"
proof -
  have trunc: "\<forall>str \<in> set (concat (make_batches M strValues)). length str \<le> M"
    by (simp add: make_batches_concat)
  have all: "\<forall>b \<in> set (make_batches M strValues). total b \<le> M"
    using make_batches_in_budget [of M strValues] by (simp add: list_all_iff)
  have single: "M \<le> length s \<longrightarrow> make_batches M [s] = [[take M s]] \<and> total [take M s] = M"
    by (simp add: make_batches_def total_def Let_def)
  from trunc all single show ?thesis by blast
qed

theorem batch_size_bound_witness:
  "make_batches 3 [''abcd'', ''ab'', ''c'', ''def''] = [[''abc''], [''ab'', ''c''], [''def'']] \<and>
   total [''ab'', ''c''] \<le> 3 \<and> length ''abc'' \<le> (3::nat) \<and>
   (3::nat) \<le> length ''abcd'' \<and> make_batches 3 [''abcd''] = [[''abc'']] \<and> total [take 3 ''abcd''] = 3"
  using batch_size_bound [of 3 "[''abcd'', ''ab'', ''c'', ''def'']" "''abcd''"]
  by (simp add: make_batches_def total_def Let_def)

section \<open>Claims about the dispatch\<close>

text \<open>
  C1, as amended. No cross-request leakage, for a queue whose values all have a string
  form and an engine whose calls (those of the waves run) behave: each settles, leaves
  the array it was handed at its length and without a hole, and rejects only with an
  Error or a value that has a string form. Then the run of \<open>batchVectorize\<close> ends
  without an exception, and the p-th value it stores is stored under the p-th request of
  the queue and stands for the outcome of that request: the outcome the call for its own
  batch gives at its own place in the batch, the string handed to the engine there being
  the string of that very request cut to \<open>maximumBatchSize\<close> characters. When the
  requests are distinct objects (as those of \<open>create\<close> are), every request is stored
  once, the store then holds that value for it, and \<open>create\<close> for that request
  resolves with it and deletes it: a stored Error is thrown, a stored array returned,
  and for any other value the Error of line 189 is thrown; a request not reached yet
  goes on waiting, as every request does before the run; no other key of the store is
  touched. With \<open>maximumParallelRequests\<close> at least 1 and enough waves, the loop
  ends with every request of the queue served.

  The hypothesis on the engine is needed: the outcomes of a batch are distributed over
  the array the engine was handed, with one cursor over the queue. In the run with the
  engine \<open>emptying\<close>, whose first call empties its array, the first request (value
  \<open>abcd\<close>, sent as \<open>abc\<close>) is stored, and \<open>create\<close> returns for it, the vector
  made for \<open>ab\<close>, the string of the second request, and the third request is never
  served.
\<close>

theorem no_cross_request_leakage:
  assumes strs: "strings_of R queue = Some strValues"
    and wb: "well_behaved R (priv_vectorize st) (calls st)
           (take (fuel * maximumParallelRequests st) (batches_of R queue st))"
  shows
  "\<exists>rest i st'. batchVectorize fuel R queue st = (None, rest, i, st') \<and>
     (let batches = batches_of R queue st;
          W = writes_of (drop (length (trace st)) (trace st'))
      in length W = i \<and> i \<le> length queue \<and>
         (\<forall>p < i. fst (W ! p) = ident (queue ! p) \<and>
            delivered R (priv_vectorize st) (calls st) batches p (snd (W ! p)) \<and>
            convertToString R (val (queue ! p)) = Inr (Some (strValues ! p)) \<and>
            position_string batches p = Some (take (maximumBatchSize st) (strValues ! p))) \<and>
         (distinct (map ident queue) \<longrightarrow>
            distinct (map fst W) \<and>
            (\<forall>p < i. priv_results st' (ident (queue ! p)) = Some (snd (W ! p)) \<and>
               fst (create_poll R (queue ! p) st') =
                 Some (if instanceof_Error (snd (W ! p)) then Inl (Throw (snd (W ! p)))
                       else if isArray (snd (W ! p)) then Inr (snd (W ! p))
                       else (case invalid_vector_message R (val (queue ! p)) of
                               Inl e \<Rightarrow> Inl e
                             | Inr msg \<Rightarrow> Inl (Throw (JError (Own (heap st')) msg)))) \<and>
               priv_results (snd (create_poll R (queue ! p) st')) (ident (queue ! p)) = None) \<and>
            (\<forall>p < length queue. i \<le> p \<and> priv_results st (ident (queue ! p)) = None \<longrightarrow>
               fst (create_poll R (queue ! p) st') = None) \<and>
            (\<forall>key. key \<notin> ident ` set (take i queue) \<longrightarrow> priv_results st' key = priv_results st key)) \<and>
         (\<forall>p < length queue. priv_results st (ident (queue ! p)) = None \<longrightarrow>
            fst (create_poll R (queue ! p) st) = None) \<and>
         (1 \<le> maximumParallelRequests st \<and> length batches \<le> fuel * maximumParallelRequests st \<longrightarrow>
            rest = [] \<and> i = length queue))"
proof -
  let ?bs = "batches_of R queue st"
  let ?n = "fuel * maximumParallelRequests st"
  let ?e = "priv_vectorize st"
  let ?i = "length (concat (take ?n ?bs))"
  let ?st' = "after_loop R queue fuel 0 ?bs st"
  let ?W = "jobs_writes R queue ?e (calls st) 0 (heap st) (take ?n ?bs)"
  have run: "batchVectorize fuel R queue st = (None, drop ?n ?bs, ?i, ?st')"
    by (rule batchVectorize_closed [OF strs wb])
  have W: "writes_of (drop (length (trace st)) (trace ?st')) = ?W"
    by (simp add: trace_after_loop writes_of_loop_events)
  have fw: "flush_writes fuel R queue st = ?W"
    by (rule flush_writes_closed [OF strs wb])
  have lenW: "length ?W = ?i" by (simp add: length_jobs_writes)
  have lq: "length (concat ?bs) = length queue"
    by (rule length_concat_batches_of [OF strs])
  have ile: "?i \<le> length queue"
    using length_concat_take_le [of ?n ?bs] by (simp add: lq)
  have cc: "concat ?bs = map (take (maximumBatchSize st)) strValues"
    by (simp add: batches_of_def strs make_batches_concat)
  have at: "fst (?W ! p) = ident (queue ! p) \<and>
      delivered R ?e (calls st) ?bs p (snd (?W ! p)) \<and>
      convertToString R (val (queue ! p)) = Inr (Some (strValues ! p)) \<and>
      position_string ?bs p = Some (take (maximumBatchSize st) (strValues ! p))"
    if p: "p < ?i" for p
  proof -
    have pq: "p < length queue" using p ile by simp
    have pc: "p < length (concat ?bs)" using pq by (simp add: lq)
    have pf: "p < length (flush_writes fuel R queue st)" using p by (simp add: fw lenW)
    from flush_writes_at [OF strs wb pf] have key: "fst (?W ! p) = ident (queue ! p)"
      by (auto simp: fw)
    from flush_writes_delivered [OF strs wb pf]
    have del: "delivered R ?e (calls st) ?bs p (snd (?W ! p))" by (simp add: fw)
    from jobs_writes_at [OF pc, of R queue ?e "calls st" 0 "heap st"]
    obtain j k where jk: "locate ?bs p = Some (j, k)" "concat ?bs ! p = ?bs ! j ! k"
      by auto
    have str: "concat ?bs ! p = take (maximumBatchSize st) (strValues ! p)"
      using pq strings_of_nth(1) [OF strs] by (simp add: cc)
    show ?thesis
      using key del jk str strings_of_nth(2) [OF strs pq] by (simp add: position_string_def)
  qed
  have keys: "map fst ?W = map ident (take ?i queue)"
    using map_fst_jobs_writes [of 0 "take ?n ?bs" queue R ?e "calls st" "heap st"] ile by simp
  have image: "fst ` set ?W = ident ` set (take ?i queue)"
    using arg_cong [OF keys, of set] by simp
  have tw: "truthy (snd (?W ! p))" if "p < ?i" for p
  proof -
    have "?W ! p \<in> set (flush_writes fuel R queue st)"
      using that lenW by (simp add: fw)
    then show ?thesis using flush_shape [of fuel R queue st]
      by (auto simp: flush_writes_def)
  qed
  have store: "distinct (map fst ?W) \<and>
      (\<forall>p < ?i. priv_results ?st' (ident (queue ! p)) = Some (snd (?W ! p)) \<and>
         fst (create_poll R (queue ! p) ?st') =
           Some (if instanceof_Error (snd (?W ! p)) then Inl (Throw (snd (?W ! p)))
                 else if isArray (snd (?W ! p)) then Inr (snd (?W ! p))
                 else (case invalid_vector_message R (val (queue ! p)) of
                         Inl e \<Rightarrow> Inl e
                       | Inr msg \<Rightarrow> Inl (Throw (JError (Own (heap ?st')) msg)))) \<and>
         priv_results (snd (create_poll R (queue ! p) ?st')) (ident (queue ! p)) = None) \<and>
      (\<forall>p < length queue. ?i \<le> p \<and> priv_results st (ident (queue ! p)) = None \<longrightarrow>
         fst (create_poll R (queue ! p) ?st') = None) \<and>
      (\<forall>key. key \<notin> ident ` set (take ?i queue) \<longrightarrow> priv_results ?st' key = priv_results st key)"
    if d: "distinct (map ident queue)"
  proof -
    have dW: "distinct (map fst ?W)"
      using distinct_take [OF d, of ?i] by (simp add: keys take_map)
    have served: "priv_results ?st' (ident (queue ! p)) = Some (snd (?W ! p)) \<and>
        fst (create_poll R (queue ! p) ?st') =
           Some (if instanceof_Error (snd (?W ! p)) then Inl (Throw (snd (?W ! p)))
                 else if isArray (snd (?W ! p)) then Inr (snd (?W ! p))
                 else (case invalid_vector_message R (val (queue ! p)) of
                         Inl e \<Rightarrow> Inl e
                       | Inr msg \<Rightarrow> Inl (Throw (JError (Own (heap ?st')) msg)))) \<and>
        priv_results (snd (create_poll R (queue ! p) ?st')) (ident (queue ! p)) = None"
      if p: "p < ?i" for p
    proof -
      have "priv_results ?st' (fst (?W ! p)) = Some (snd (?W ! p))"
        using store_all_distinct [OF dW, of p "priv_results st"] p lenW
        by (simp add: results_after_loop)
      then have s: "priv_results ?st' (ident (queue ! p)) = Some (snd (?W ! p))"
        using at [OF p] by simp
      from create_poll_value [OF s tw [OF p]] create_poll_deletes [OF s tw [OF p]] s
      show ?thesis by simp
    qed
    have other: "priv_results ?st' key = priv_results st key"
      if "key \<notin> ident ` set (take ?i queue)" for key
      using that image by (simp add: results_after_loop store_all_other)
    have waiting: "fst (create_poll R (queue ! p) ?st') = None"
      if p: "p < length queue" "?i \<le> p" "priv_results st (ident (queue ! p)) = None" for p
    proof -
      have "ident (queue ! p) \<notin> ident ` set (take ?i queue)"
      proof
        assume "ident (queue ! p) \<in> ident ` set (take ?i queue)"
        then obtain x where x: "x \<in> set (take ?i queue)" "ident x = ident (queue ! p)" by auto
        then obtain q where q: "q < length (take ?i queue)" "take ?i queue ! q = x"
          by (auto simp: in_set_conv_nth)
        then have q': "q < ?i" "q < length queue" "queue ! q = x" using ile by simp_all
        have "map ident queue ! q = map ident queue ! p" using q' x p by simp
        then have "q = p"
          using d q' p by (simp add: nth_eq_iff_index_eq del: nth_map)
        then show False using q' p by simp
      qed
      from other [OF this] p(3) show ?thesis by (simp add: create_poll_absent)
    qed
    show ?thesis using dW served waiting other by blast
  qed
  have before: "fst (create_poll R (queue ! p) st) = None"
    if "priv_results st (ident (queue ! p)) = None" for p
    using that by (rule create_poll_absent)
  have fin: "drop ?n ?bs = [] \<and> ?i = length queue" if "length ?bs \<le> ?n"
    using that by (simp add: lq)
  show ?thesis
    apply (rule exI [of _ "drop ?n ?bs"], rule exI [of _ ?i], rule exI [of _ ?st'])
    apply (rule conjI [OF run])
    unfolding Let_def W
    apply (intro conjI)
    subgoal by (rule lenW)
    subgoal by (rule ile)
    subgoal using at by blast
    subgoal using store by blast
    subgoal using before by blast
    subgoal using fin by blast
    done
qed

theorem no_cross_request_leakage_witness:
  "strings_of example_rt example_queue = Some [''abcd'', ''ab'', ''c''] \<and>
   well_behaved example_rt (priv_vectorize example_world) (calls example_world)
     (take (Suc (Suc 0) * maximumParallelRequests example_world)
        (batches_of example_rt example_queue example_world)) \<and>
   distinct (map ident example_queue) \<and>
   1 \<le> maximumParallelRequests example_world \<and>
   length (batches_of example_rt example_queue example_world)
     \<le> Suc (Suc 0) * maximumParallelRequests example_world \<and>
   batchVectorize (Suc (Suc 0)) example_rt example_queue example_world = (None, [], 3, example_final) \<and>
   writes_of (drop (length (trace example_world)) (trace example_final)) =
     [(Own 0, JError (Own 3) ''boom''), (Own 1, JArr [JNum 1]), (Own 2, JNum (- 1))] \<and>
   delivered example_rt (priv_vectorize example_world) (calls example_world)
     (batches_of example_rt example_queue example_world) 1 (JArr [JNum 1]) \<and>
   position_string (batches_of example_rt example_queue example_world) 0 = Some ''abc'' \<and>
   priv_results example_final (Own 2) = Some (JNum (- 1)) \<and>
   fst (create_poll example_rt (example_queue ! Suc 0) example_final) = Some (Inr (JArr [JNum 1])) \<and>
   fst (create_poll example_rt (example_queue ! Suc 0) example_world) = None"
proof -
  have strs: "strings_of example_rt example_queue = Some [''abcd'', ''ab'', ''c'']"
    by (rule example_strings)
  have wb: "well_behaved example_rt (priv_vectorize example_world) (calls example_world)
     (take (Suc (Suc 0) * maximumParallelRequests example_world)
        (batches_of example_rt example_queue example_world))"
    unfolding example_batches using example_well_behaved(1)
    by (simp add: example_world_def initialize_def)
  from no_cross_request_leakage [OF strs wb]
  obtain rest i st' where
    run: "batchVectorize (Suc (Suc 0)) example_rt example_queue example_world = (None, rest, i, st')"
    and len: "length (writes_of (drop (length (trace example_world)) (trace st'))) = i"
    unfolding Let_def by blast
  from run have st': "st' = example_final" and i: "i = 3"
    by (simp_all only: example_run) simp_all
  have poll: "fst (create_poll example_rt (example_queue ! Suc 0) example_world) = None"
    by (simp add: create_poll_def Let_def example_defs)
  show ?thesis
    using strs wb len [unfolded st' i] poll
    by (simp del: well_behaved.simps add: example_run example_batches example_poll_initial)
      (simp add: example_defs delivered_def position_string_def represents_def outcome_of_def
        call_engine_def as_array_def)
qed

theorem no_cross_request_leakage_counterexample:
  "strings_of example_rt example_queue = Some [''abcd'', ''ab'', ''c''] \<and>
   val (example_queue ! 0) = JStr ''abcd'' \<and>
   batches_of example_rt example_queue (example_with emptying) = [[''abc''], [''ab'', ''c'']] \<and>
   position_string (batches_of example_rt example_queue (example_with emptying)) 0 = Some ''abc'' \<and>
   call_engine (priv_vectorize (example_with emptying)) 0 [''abc''] =
     (Some (Fulfilled (JArr [JArr [JStr ''abc'']])), []) \<and>
   call_engine (priv_vectorize (example_with emptying)) (Suc 0) [''ab'', ''c''] =
     (Some (Fulfilled (JArr [JArr [JStr ''ab''], JArr [JStr ''c'']])), [Some (JStr ''ab''), Some (JStr ''c'')]) \<and>
   fst (batchVectorize (Suc (Suc 0)) example_rt example_queue (example_with emptying)) = None \<and>
   flush_writes (Suc (Suc 0)) example_rt example_queue (example_with emptying) =
     [(Own 0, JArr [JStr ''ab'']), (Own 1, JArr [JStr ''c''])] \<and>
   fst (create_poll example_rt (example_queue ! 0)
         (flush_result (Suc (Suc 0)) example_rt example_queue (example_with emptying)))
     = Some (Inr (JArr [JStr ''ab''])) \<and>
   \<not> delivered example_rt (priv_vectorize (example_with emptying)) 0
       (batches_of example_rt example_queue (example_with emptying)) 0 (JArr [JStr ''ab'']) \<and>
   fst (create_poll example_rt (example_queue ! Suc (Suc 0))
         (flush_result (Suc (Suc 0)) example_rt example_queue (example_with emptying)))
     = None"
  by (simp add: example_strings example_with_batches example_poll_emptying example_emptying)
    (simp add: example_defs example_engines call_engine_def position_string_def delivered_def
      represents_def outcome_of_def as_array_def)



text \<open>
  C6, as amended. For a queue whose values all have a string form and an engine whose
  calls behave: when the call for a batch is rejected with an Error object, every
  request of the batch is stored that very object, and \<open>create\<close> throws it. When it is
  rejected with any other value, every request of the batch is stored an Error object of
  its own, newly made from the value (its message is the string form of the value, and
  empty when the value is \<open>undefined\<close>), and \<open>create\<close> throws that. The requests of
  the other batches get the outcome of their own batch.

  A reason that is not an Error is thus not surfaced as it is, and not as one value: in
  the run with the engine \<open>rejecting (JStr ''boom'')\<close> the two requests of the second
  batch are stored, and their \<open>create\<close> throws, two different Error objects.
\<close>

theorem batch_failure_propagation:
  assumes strs: "strings_of R queue = Some strValues"
    and wb: "well_behaved R (priv_vectorize st) (calls st)
           (take (fuel * maximumParallelRequests st) (batches_of R queue st))"
    and p: "p < length (flush_writes fuel R queue st)"
    and loc: "locate (batches_of R queue st) p = Some (j, k)"
    and rej: "fst (call_engine (priv_vectorize st) (calls st + j) (batches_of R queue st ! j))
        = Some (Rejected reason)"
  shows
    "fst (flush_writes fuel R queue st ! p) = ident (queue ! p) \<and>
     (instanceof_Error reason \<longrightarrow> snd (flush_writes fuel R queue st ! p) = reason) \<and>
     (\<not> instanceof_Error reason \<longrightarrow>
        (\<exists>n msg. snd (flush_writes fuel R queue st ! p) = JError (Own n) msg \<and>
           (if reason = JUndefined then msg = [] else ToString R reason = Inr msg)) \<and>
        (\<forall>p' k'. p' < length (flush_writes fuel R queue st) \<and>
           locate (batches_of R queue st) p' = Some (j, k') \<and> k' \<noteq> k \<longrightarrow>
           snd (flush_writes fuel R queue st ! p') \<noteq> snd (flush_writes fuel R queue st ! p))) \<and>
     (\<forall>st'. priv_results st' (ident (queue ! p)) = Some (snd (flush_writes fuel R queue st ! p)) \<longrightarrow>
        fst (create_poll R (queue ! p) st') =
          Some (Inl (Throw (snd (flush_writes fuel R queue st ! p))))) \<and>
     (\<forall>p' < length (flush_writes fuel R queue st).
        delivered R (priv_vectorize st) (calls st) (batches_of R queue st) p'
          (snd (flush_writes fuel R queue st ! p')))"
proof -
  let ?W = "flush_writes fuel R queue st"
  let ?h = "heap st + jobs_allocs (priv_vectorize st) (calls st) (take j (batches_of R queue st))"
  have sa: "settled_as (priv_vectorize st) (calls st + j) (batches_of R queue st ! j) = Rejected reason"
    using rej by (simp add: settled_as_def)
  have at: "?W ! p = (ident (queue ! p), written R (Rejected reason) ?h k)"
    and b: "behaves R (priv_vectorize st) (calls st + j) (batches_of R queue st ! j)"
    using flush_writes_at [OF strs wb p] loc sa by auto
  have good: "instanceof_Error reason \<or> has_message R reason"
    using behaves_good [OF b] sa by (simp add: good_outcome_def)
  have err: "instanceof_Error (written R (Rejected reason) ?h k)"
    by (cases reason) (simp_all add: written_def)
  have made: "\<exists>n msg. snd (?W ! p) = JError (Own n) msg \<and>
      (if reason = JUndefined then msg = [] else ToString R reason = Inr msg)"
    if "\<not> instanceof_Error reason"
  proof -
    from that good have "has_message R reason" by simp
    from message_of_has_message [OF this] that at show ?thesis
      by (simp add: written_def split: if_splits)
  qed
  have other: "snd (?W ! p') \<noteq> snd (?W ! p)"
    if "\<not> instanceof_Error reason" "p' < length ?W"
      "locate (batches_of R queue st) p' = Some (j, k')" "k' \<noteq> k" for p' k'
  proof -
    have "?W ! p' = (ident (queue ! p'), written R (Rejected reason) ?h k')"
      using flush_writes_at [OF strs wb that(2)] that(3) sa by auto
    then show ?thesis using at that(1,4) by (simp add: written_def)
  qed
  have thrown: "fst (create_poll R (queue ! p) st') = Some (Inl (Throw (snd (?W ! p))))"
    if "priv_results st' (ident (queue ! p)) = Some (snd (?W ! p))" for st'
  proof -
    have "truthy (snd (?W ! p))" using at by (simp add: truthy_written)
    from create_poll_value [OF that this] err at show ?thesis by simp
  qed
  show ?thesis
    apply (intro conjI)
    subgoal using at by simp
    subgoal using at by (simp add: written_def)
    subgoal using made other by blast
    subgoal using thrown by blast
    subgoal using flush_writes_delivered [OF strs wb] by blast
    done
qed

theorem batch_failure_propagation_witness:
  "strings_of example_rt example_queue = Some [''abcd'', ''ab'', ''c''] \<and>
   well_behaved example_rt (priv_vectorize (example_with (rejecting (JStr ''boom''))))
     (calls (example_with (rejecting (JStr ''boom''))))
     (take (Suc (Suc 0) * maximumParallelRequests (example_with (rejecting (JStr ''boom''))))
        (batches_of example_rt example_queue (example_with (rejecting (JStr ''boom''))))) \<and>
   Suc 0 < length (flush_writes (Suc (Suc 0)) example_rt example_queue (example_with (rejecting (JStr ''boom'')))) \<and>
   locate (batches_of example_rt example_queue (example_with (rejecting (JStr ''boom'')))) (Suc 0) = Some (Suc 0, 0) \<and>
   locate (batches_of example_rt example_queue (example_with (rejecting (JStr ''boom'')))) (Suc (Suc 0))
     = Some (Suc 0, Suc 0) \<and>
   fst (call_engine (priv_vectorize (example_with (rejecting (JStr ''boom''))))
       (calls (example_with (rejecting (JStr ''boom''))) + Suc 0)
       (batches_of example_rt example_queue (example_with (rejecting (JStr ''boom''))) ! Suc 0))
     = Some (Rejected (JStr ''boom'')) \<and>
   \<not> instanceof_Error (JStr ''boom'') \<and>
   flush_writes (Suc (Suc 0)) example_rt example_queue (example_with (rejecting (JStr ''boom''))) ! Suc 0
     = (Own 1, JError (Own 4) ''boom'') \<and>
   flush_writes (Suc (Suc 0)) example_rt example_queue (example_with (rejecting (JStr ''boom''))) ! Suc (Suc 0)
     = (Own 2, JError (Own 5) ''boom'') \<and>
   ToString example_rt (JStr ''boom'') = Inr ''boom'' \<and>
   well_behaved example_rt (priv_vectorize (example_with (rejecting (JError (Env 5) ''Not good!''))))
     (calls (example_with (rejecting (JError (Env 5) ''Not good!''))))
     (take (Suc (Suc 0) * maximumParallelRequests (example_with (rejecting (JError (Env 5) ''Not good!''))))
        (batches_of example_rt example_queue (example_with (rejecting (JError (Env 5) ''Not good!''))))) \<and>
   fst (call_engine (priv_vectorize (example_with (rejecting (JError (Env 5) ''Not good!''))))
       (calls (example_with (rejecting (JError (Env 5) ''Not good!''))) + Suc 0)
       (batches_of example_rt example_queue (example_with (rejecting (JError (Env 5) ''Not good!''))) ! Suc 0))
     = Some (Rejected (JError (Env 5) ''Not good!'')) \<and>
   instanceof_Error (JError (Env 5) ''Not good!'') \<and>
   flush_writes (Suc (Suc 0)) example_rt example_queue (example_with (rejecting (JError (Env 5) ''Not good!'')))
     = [(Own 0, JError (Env 5) ''Not good!''), (Own 1, JError (Env 5) ''Not good!''),
        (Own 2, JError (Env 5) ''Not good!'')] \<and>
   fst (create_poll example_rt (example_queue ! Suc 0)
         (flush_result (Suc (Suc 0)) example_rt example_queue
            (example_with (rejecting (JError (Env 5) ''Not good!'')))))
     = Some (Inl (Throw (JError (Env 5) ''Not good!'')))"
proof -
  let ?s = "example_with (rejecting (JStr ''boom''))"
  let ?e = "example_with (rejecting (JError (Env 5) ''Not good!''))"
  have strs: "strings_of example_rt example_queue = Some [''abcd'', ''ab'', ''c'']"
    by (rule example_strings)
  have wb: "well_behaved example_rt (priv_vectorize ?s) (calls ?s)
      (take (Suc (Suc 0) * maximumParallelRequests ?s) (batches_of example_rt example_queue ?s))"
    "well_behaved example_rt (priv_vectorize ?e) (calls ?e)
      (take (Suc (Suc 0) * maximumParallelRequests ?e) (batches_of example_rt example_queue ?e))"
    unfolding example_with_batches using example_well_behaved(2,3)
    by (simp_all add: example_with_def example_world_def initialize_def)
  have len: "Suc 0 < length (flush_writes (Suc (Suc 0)) example_rt example_queue ?s)"
    "Suc 0 < length (flush_writes (Suc (Suc 0)) example_rt example_queue ?e)"
    by (simp_all add: example_rejecting_string example_rejecting_error)
  have loc: "locate (batches_of example_rt example_queue ?s) (Suc 0) = Some (Suc 0, 0)"
    "locate (batches_of example_rt example_queue ?e) (Suc 0) = Some (Suc 0, 0)"
    "locate (batches_of example_rt example_queue ?s) (Suc (Suc 0)) = Some (Suc 0, Suc 0)"
    by (simp_all add: example_with_batches)
  have rej: "fst (call_engine (priv_vectorize ?s) (calls ?s + Suc 0) (batches_of example_rt example_queue ?s ! Suc 0))
      = Some (Rejected (JStr ''boom''))"
    "fst (call_engine (priv_vectorize ?e) (calls ?e + Suc 0) (batches_of example_rt example_queue ?e ! Suc 0))
      = Some (Rejected (JError (Env 5) ''Not good!''))"
    by (simp_all add: call_engine_def example_engines example_defs)
  have key: "fst (flush_writes (Suc (Suc 0)) example_rt example_queue ?s ! Suc 0) = ident (example_queue ! Suc 0)"
    using batch_failure_propagation [OF strs wb(1) len(1) loc(1) rej(1)] by (rule conjunct1)
  have same: "instanceof_Error (JError (Env 5) ''Not good!'') \<longrightarrow>
      snd (flush_writes (Suc (Suc 0)) example_rt example_queue ?e ! Suc 0) = JError (Env 5) ''Not good!''"
    using batch_failure_propagation [OF strs wb(2) len(2) loc(2) rej(2)] by blast
  have ts: "ToString example_rt (JStr ''boom'') = Inr ''boom''" by (simp add: ToString_def)
  show ?thesis
    using key same len(1) loc(1,3) rej strs wb ts
    by (simp del: well_behaved.simps
        add: example_rejecting_string example_rejecting_error example_poll_rejected_error)
qed

theorem batch_failure_propagation_counterexample:
  "call_engine (priv_vectorize (example_with (rejecting (JStr ''boom'')))) (Suc 0) [''ab'', ''c'']
     = (Some (Rejected (JStr ''boom'')), [Some (JStr ''ab''), Some (JStr ''c'')]) \<and>
   flush_writes (Suc (Suc 0)) example_rt example_queue (example_with (rejecting (JStr ''boom''))) =
     [(Own 0, JError (Own 3) ''boom''), (Own 1, JError (Own 4) ''boom''), (Own 2, JError (Own 5) ''boom'')] \<and>
   JError (Own 4) ''boom'' \<noteq> JError (Own 5) ''boom'' \<and>
   JError (Own 4) ''boom'' \<noteq> JStr ''boom'' \<and>
   fst (create_poll example_rt (example_queue ! Suc 0)
         (flush_result (Suc (Suc 0)) example_rt example_queue (example_with (rejecting (JStr ''boom'')))))
     = Some (Inl (Throw (JError (Own 4) ''boom''))) \<and>
   fst (create_poll example_rt (example_queue ! Suc (Suc 0))
         (flush_result (Suc (Suc 0)) example_rt example_queue (example_with (rejecting (JStr ''boom'')))))
     = Some (Inl (Throw (JError (Own 5) ''boom'')))"
  by (simp add: example_rejecting_string example_poll_rejected_string)
    (simp add: call_engine_def example_engines example_defs)

text \<open>
  C7, as amended. For a queue whose values all have a string form and an engine whose
  calls behave: when the call for a batch is fulfilled, the k-th request of the batch
  is stored the k-th entry of the result if the result is an array with a truthy entry
  there, and the sentinel -1 otherwise. \<open>create\<close> then returns a stored array, throws
  a stored Error object as it is, and for every other stored value (the sentinel among
  them) throws a new Error whose message names the string form of the input, or throws
  what taking that string form throws. The other requests get the outcome of their own
  batch and position.

  A truthy entry that is an Error object is thus thrown as it is, not reported as an
  invalid vector: so in the run with the engine that fulfils every call with an array
  holding one Error.
\<close>

theorem malformed_result_classification:
  assumes strs: "strings_of R queue = Some strValues"
    and wb: "well_behaved R (priv_vectorize st) (calls st)
           (take (fuel * maximumParallelRequests st) (batches_of R queue st))"
    and p: "p < length (flush_writes fuel R queue st)"
    and loc: "locate (batches_of R queue st) p = Some (j, k)"
    and ful: "fst (call_engine (priv_vectorize st) (calls st + j) (batches_of R queue st ! j))
        = Some (Fulfilled v)"
  shows
    "fst (flush_writes fuel R queue st ! p) = ident (queue ! p) \<and>
     snd (flush_writes fuel R queue st ! p) =
       (if isArray v \<and> k < length (as_array v) \<and> truthy (as_array v ! k)
        then as_array v ! k else JNum (- 1)) \<and>
     (\<forall>st'. priv_results st' (ident (queue ! p)) = Some (snd (flush_writes fuel R queue st ! p)) \<longrightarrow>
        fst (create_poll R (queue ! p) st') =
          (if instanceof_Error (snd (flush_writes fuel R queue st ! p))
           then Some (Inl (Throw (snd (flush_writes fuel R queue st ! p))))
           else if isArray (snd (flush_writes fuel R queue st ! p))
           then Some (Inr (snd (flush_writes fuel R queue st ! p)))
           else (case ToString R (val (queue ! p)) of
                   Inl e \<Rightarrow> Some (Inl e)
                 | Inr s \<Rightarrow>
                     Some (Inl (Throw (JError (Own (heap st'))
                       (''Could not vectorize: vector engine did not return a valid vector for input '' @
                        [CHR 0x22] @ s @ [CHR 0x22]))))))) \<and>
     (\<forall>p' < length (flush_writes fuel R queue st).
        delivered R (priv_vectorize st) (calls st) (batches_of R queue st) p'
          (snd (flush_writes fuel R queue st ! p')))"
proof -
  let ?W = "flush_writes fuel R queue st"
  let ?h = "heap st + jobs_allocs (priv_vectorize st) (calls st) (take j (batches_of R queue st))"
  have sa: "settled_as (priv_vectorize st) (calls st + j) (batches_of R queue st ! j) = Fulfilled v"
    using ful by (simp add: settled_as_def)
  have at: "?W ! p = (ident (queue ! p), written R (Fulfilled v) ?h k)"
    using flush_writes_at [OF strs wb p] loc sa by auto
  have val: "written R (Fulfilled v) ?h k =
      (if isArray v \<and> k < length (as_array v) \<and> truthy (as_array v ! k)
       then as_array v ! k else JNum (- 1))"
    by (cases "isArray v") (simp_all add: written_def as_array_not_array)
  have tw: "truthy (snd (?W ! p))" using at by (simp add: truthy_written)
  show ?thesis
    apply (intro conjI)
    subgoal using at by simp
    subgoal using at val by simp
    subgoal using create_poll_value [OF _ tw]
      by (simp add: invalid_vector_message_def split: sum.splits)
    subgoal using flush_writes_delivered [OF strs wb] by blast
    done
qed

theorem malformed_result_classification_witness:
  "strings_of example_rt example_queue = Some [''abcd'', ''ab'', ''c''] \<and>
   well_behaved example_rt (priv_vectorize (example_with (fulfilling (JArr [JArr [JNum 1], JStr ''x'']))))
     (calls (example_with (fulfilling (JArr [JArr [JNum 1], JStr ''x'']))))
     (take (Suc (Suc 0) * maximumParallelRequests (example_with (fulfilling (JArr [JArr [JNum 1], JStr ''x'']))))
        (batches_of example_rt example_queue (example_with (fulfilling (JArr [JArr [JNum 1], JStr ''x'']))))) \<and>
   Suc (Suc 0) < length (flush_writes (Suc (Suc 0)) example_rt example_queue
       (example_with (fulfilling (JArr [JArr [JNum 1], JStr ''x''])))) \<and>
   locate (batches_of example_rt example_queue (example_with (fulfilling (JArr [JArr [JNum 1], JStr ''x'']))))
       (Suc (Suc 0)) = Some (Suc 0, Suc 0) \<and>
   fst (call_engine (priv_vectorize (example_with (fulfilling (JArr [JArr [JNum 1], JStr ''x'']))))
       (calls (example_with (fulfilling (JArr [JArr [JNum 1], JStr ''x'']))) + Suc 0)
       (batches_of example_rt example_queue (example_with (fulfilling (JArr [JArr [JNum 1], JStr ''x'']))) ! Suc 0))
     = Some (Fulfilled (JArr [JArr [JNum 1], JStr ''x''])) \<and>
   flush_writes (Suc (Suc 0)) example_rt example_queue
       (example_with (fulfilling (JArr [JArr [JNum 1], JStr ''x''])))
     = [(Own 0, JArr [JNum 1]), (Own 1, JArr [JNum 1]), (Own 2, JStr ''x'')] \<and>
   fst (create_poll example_rt (example_queue ! Suc (Suc 0))
         (flush_result (Suc (Suc 0)) example_rt example_queue
            (example_with (fulfilling (JArr [JArr [JNum 1], JStr ''x''])))))
     = Some (Inl (Throw (JError (Own 3)
         (''Could not vectorize: vector engine did not return a valid vector for input '' @
          [CHR 0x22] @ ''c'' @ [CHR 0x22])))) \<and>
   fst (create_poll example_rt (example_queue ! 0)
         (flush_result (Suc (Suc 0)) example_rt example_queue
            (example_with (fulfilling (JArr [JArr [JNum 1], JStr ''x''])))))
     = Some (Inr (JArr [JNum 1])) \<and>
   flush_writes (Suc (Suc 0)) example_rt example_queue (example_with (fulfilling JUndefined))
     = [(Own 0, JNum (- 1)), (Own 1, JNum (- 1)), (Own 2, JNum (- 1))] \<and>
   fst (create_poll example_rt (example_queue ! 0)
         (flush_result (Suc (Suc 0)) example_rt example_queue (example_with (fulfilling JUndefined))))
     = Some (Inl (Throw (JError (Own 3)
         (''Could not vectorize: vector engine did not return a valid vector for input '' @
          [CHR 0x22] @ ''abcd'' @ [CHR 0x22]))))"
proof -
  let ?m = "example_with (fulfilling (JArr [JArr [JNum 1], JStr ''x'']))"
  have strs: "strings_of example_rt example_queue = Some [''abcd'', ''ab'', ''c'']"
    by (rule example_strings)
  have wb: "well_behaved example_rt (priv_vectorize ?m) (calls ?m)
      (take (Suc (Suc 0) * maximumParallelRequests ?m) (batches_of example_rt example_queue ?m))"
    unfolding example_with_batches using example_well_behaved(4)
    by (simp add: example_with_def example_world_def initialize_def)
  have len: "Suc (Suc 0) < length (flush_writes (Suc (Suc 0)) example_rt example_queue ?m)"
    by (simp add: example_fulfilling_mixed)
  have loc: "locate (batches_of example_rt example_queue ?m) (Suc (Suc 0)) = Some (Suc 0, Suc 0)"
    by (simp add: example_with_batches)
  have ful: "fst (call_engine (priv_vectorize ?m) (calls ?m + Suc 0) (batches_of example_rt example_queue ?m ! Suc 0))
      = Some (Fulfilled (JArr [JArr [JNum 1], JStr ''x'']))"
    by (simp add: call_engine_def example_engines example_defs)
  have key: "fst (flush_writes (Suc (Suc 0)) example_rt example_queue ?m ! Suc (Suc 0))
      = ident (example_queue ! Suc (Suc 0))"
    using malformed_result_classification [OF strs wb len loc ful] by (rule conjunct1)
  show ?thesis
    using key len loc ful strs wb
    by (simp del: well_behaved.simps
        add: example_fulfilling_mixed example_fulfilling_nonarray example_poll_fulfilled_mixed
        example_poll_fulfilled_nonarray)
qed

theorem malformed_result_classification_counterexample:
  "call_engine (priv_vectorize (example_with (fulfilling (JArr [JError (Env 7) ''oops''])))) 0 [''abc'']
     = (Some (Fulfilled (JArr [JError (Env 7) ''oops''])), [Some (JStr ''abc'')]) \<and>
   flush_writes (Suc (Suc 0)) example_rt example_queue
       (example_with (fulfilling (JArr [JError (Env 7) ''oops'']))) ! 0
     = (Own 0, JError (Env 7) ''oops'') \<and>
   fst (create_poll example_rt (example_queue ! 0)
         (flush_result (Suc (Suc 0)) example_rt example_queue
            (example_with (fulfilling (JArr [JError (Env 7) ''oops''])))))
     = Some (Inl (Throw (JError (Env 7) ''oops''))) \<and>
   invalid_vector_message example_rt (val (example_queue ! 0)) =
     Inr (''Could not vectorize: vector engine did not return a valid vector for input '' @ [CHR 0x22] @ ''abcd'' @ [CHR 0x22]) \<and>
   ''oops'' \<noteq> ''Could not vectorize: vector engine did not return a valid vector for input '' @ [CHR 0x22] @ ''abcd'' @ [CHR 0x22]"
  by (simp add: example_fulfilling_error example_poll_fulfilled_error example_message)
    (simp add: call_engine_def example_engines example_defs)

text \<open>
  C9. Truthy-outcome invariant: every value a run of \<open>batchVectorize\<close> writes into the
  result store is truthy, whatever the engine does and however the run stops, so a store
  holding only truthy values still does after the run and after a poll of \<open>create\<close>;
  and on such a store the poll of \<open>create\<close> goes on waiting exactly when the store has
  no entry for its item. (The run ends without an exception when every value of the
  queue has a string form and the calls behave.)
\<close>

theorem truthy_outcome_invariant:
  "(\<forall>w \<in> set (flush_writes fuel R queue st). truthy (snd w)) \<and>
   (\<exists>h rest i st'. batchVectorize fuel R queue st = (h, rest, i, st') \<and>
      (all_truthy (priv_results st) \<longrightarrow> all_truthy (priv_results st')) \<and>
      (strings_of R queue \<noteq> None \<and>
       well_behaved R (priv_vectorize st) (calls st)
         (take (fuel * maximumParallelRequests st) (batches_of R queue st)) \<longrightarrow> h = None)) \<and>
   (all_truthy (priv_results st) \<longrightarrow>
      all_truthy (priv_results (snd (create_poll R item st))) \<and>
      ((fst (create_poll R item st) = None) = (priv_results st (ident item) = None)))"
proof (intro conjI)
  from flush_shape [of fuel R queue st] obtain tr where
    tr: "trace (flush_result fuel R queue st) = trace st @ tr"
    and tw: "\<forall>w \<in> set (writes_of tr). truthy (snd w)"
    and res: "priv_results (flush_result fuel R queue st) = store_all (priv_results st) (writes_of tr)"
    by blast
  have fw: "flush_writes fuel R queue st = writes_of tr"
    by (simp add: flush_writes_def tr)
  show "\<forall>w \<in> set (flush_writes fuel R queue st). truthy (snd w)"
    using tw by (simp add: fw)
  obtain h rest i st' where run: "batchVectorize fuel R queue st = (h, rest, i, st')"
    by (cases "batchVectorize fuel R queue st")
  then have st': "flush_result fuel R queue st = st'" by (simp add: flush_result_def)
  have keep: "all_truthy (priv_results st) \<longrightarrow> all_truthy (priv_results st')"
    using all_truthy_store_all [OF _ tw] res st' by simp
  have ends: "h = None"
    if "strings_of R queue \<noteq> None \<and>
       well_behaved R (priv_vectorize st) (calls st)
         (take (fuel * maximumParallelRequests st) (batches_of R queue st))"
  proof -
    from that obtain strValues where s: "strings_of R queue = Some strValues" by auto
    from batchVectorize_closed [OF s] that run show ?thesis by simp
  qed
  show "\<exists>h rest i st'. batchVectorize fuel R queue st = (h, rest, i, st') \<and>
      (all_truthy (priv_results st) \<longrightarrow> all_truthy (priv_results st')) \<and>
      (strings_of R queue \<noteq> None \<and>
       well_behaved R (priv_vectorize st) (calls st)
         (take (fuel * maximumParallelRequests st) (batches_of R queue st)) \<longrightarrow> h = None)"
    using run keep ends by blast
  show "all_truthy (priv_results st) \<longrightarrow>
      all_truthy (priv_results (snd (create_poll R item st))) \<and>
      ((fst (create_poll R item st) = None) = (priv_results st (ident item) = None))"
    using create_poll_pending create_poll_all_truthy by blast
qed

theorem truthy_outcome_invariant_witness:
  "all_truthy (priv_results example_world) \<and>
   strings_of example_rt example_queue \<noteq> None \<and>
   well_behaved example_rt (priv_vectorize example_world) (calls example_world)
     (take (Suc (Suc 0) * maximumParallelRequests example_world)
        (batches_of example_rt example_queue example_world)) \<and>
   flush_writes (Suc (Suc 0)) example_rt example_queue example_world =
     [(Own 0, JError (Own 3) ''boom''), (Own 1, JArr [JNum 1]), (Own 2, JNum (- 1))] \<and>
   truthy (JError (Own 3) ''boom'') \<and> truthy (JArr [JNum 1]) \<and> truthy (JNum (- 1)) \<and>
   batchVectorize (Suc (Suc 0)) example_rt example_queue example_world = (None, [], 3, example_final) \<and>
   all_truthy (priv_results example_final) \<and>
   fst (create_poll example_rt (example_queue ! 0) example_world) = None \<and>
   priv_results example_world (ident (example_queue ! 0)) = None \<and>
   fst (create_poll example_rt (example_queue ! Suc 0) example_final) = Some (Inr (JArr [JNum 1]))"
proof -
  have empty: "all_truthy (priv_results example_world)"
    by (simp add: all_truthy_def example_defs)
  have strs: "strings_of example_rt example_queue \<noteq> None"
    by (simp add: example_strings)
  have wb: "well_behaved example_rt (priv_vectorize example_world) (calls example_world)
     (take (Suc (Suc 0) * maximumParallelRequests example_world)
        (batches_of example_rt example_queue example_world))"
    unfolding example_batches using example_well_behaved(1)
    by (simp add: example_world_def initialize_def)
  have "\<exists>h rest i st'. batchVectorize (Suc (Suc 0)) example_rt example_queue example_world = (h, rest, i, st') \<and>
      (all_truthy (priv_results example_world) \<longrightarrow> all_truthy (priv_results st'))"
    using truthy_outcome_invariant [of "Suc (Suc 0)" example_rt example_queue example_world "example_queue ! 0"]
    by blast
  then have final: "all_truthy (priv_results example_final)"
    using empty by (simp add: example_run)
  have none: "priv_results example_world (ident (example_queue ! 0)) = None"
    by (simp add: example_defs)
  show ?thesis
    using empty final none strs wb
    by (simp del: well_behaved.simps add: example_run example_poll_initial flush_writes_def flush_result_def)
      (simp add: example_defs)
qed




section \<open>Claims about create and the timers\<close>

text \<open>
  C5. Debounce state machine. When the timer started by \<open>createTimeout\<close> expires:
  if a flush is in progress, \<open>createTimeout\<close> is called again, which starts a timer
  with the same callback and the delay \<open>fastQueueTime\<close>; otherwise, if the queue holds
  at most one request, the queue is flushed at once; otherwise a timer of delay
  \<open>waitQueueTime - fastQueueTime\<close> is started, and when that one expires the queue is
  flushed whatever the state. A flush sets the flag, clears the timer, empties the queue
  and starts \<open>batchVectorize\<close> on the requests that were in it.
\<close>

theorem debounce_state_machine:
  "(priv_vectorize st \<noteq> None \<and> priv_timeout st = None \<longrightarrow>
      trace (snd (create_begin R v st)) =
        trace st @ [SetTimeout (timers st) FastExpiry (fastQueueTime st)] \<and>
      priv_timeout (snd (create_begin R v st)) = Some (timers st)) \<and>
   (priv_processing st \<longrightarrow>
      on_fast_expiry st = (None, createTimeout st) \<and>
      createTimeout st =
        st\<lparr>priv_timeout := Some (timers st), timers := Suc (timers st),
           trace := trace st @ [SetTimeout (timers st) FastExpiry (fastQueueTime st)]\<rparr>) \<and>
   (\<not> priv_processing st \<and> length (priv_queue st) \<le> 1 \<longrightarrow>
      on_fast_expiry st = on_wait_expiry st) \<and>
   (\<not> priv_processing st \<and> 1 < length (priv_queue st) \<longrightarrow>
      on_fast_expiry st =
        (None,
         st\<lparr>priv_timeout := Some (timers st), timers := Suc (timers st),
            trace := trace st @
              [SetTimeout (timers st) WaitExpiry (waitQueueTime st - fastQueueTime st)]\<rparr>)) \<and>
   on_wait_expiry st =
     (Some (priv_queue st),
      st\<lparr>priv_queue := [], priv_timeout := None, priv_processing := True,
         trace := trace st @ [ClearTimeout (priv_timeout st), BatchVectorize (priv_queue st)]\<rparr>)"
  by (simp add: on_fast_expiry_def on_wait_expiry_def createTimeout_def setTimeout_def
      dequeue_begin_def create_begin_def Let_def)

theorem debounce_state_machine_witness:
  "priv_vectorize example_world \<noteq> None \<and> priv_timeout example_world = None \<and>
   trace (snd (create_begin example_rt (JStr ''hello'') example_world)) = [SetTimeout 0 FastExpiry 10] \<and>
   priv_processing (example_world\<lparr>priv_processing := True\<rparr>) \<and>
   on_fast_expiry (example_world\<lparr>priv_processing := True\<rparr>) =
     (None, example_world\<lparr>priv_timeout := Some 0, priv_processing := True, timers := Suc 0,
        trace := [SetTimeout 0 FastExpiry 10]\<rparr>) \<and>
   \<not> priv_processing (example_world\<lparr>priv_queue := [example_queue ! 0], priv_timeout := Some 0\<rparr>) \<and>
   length (priv_queue (example_world\<lparr>priv_queue := [example_queue ! 0], priv_timeout := Some 0\<rparr>)) \<le> 1 \<and>
   on_fast_expiry (example_world\<lparr>priv_queue := [example_queue ! 0], priv_timeout := Some 0\<rparr>) =
     (Some [example_queue ! 0],
      example_world\<lparr>priv_queue := [], priv_timeout := None, priv_processing := True,
        trace := [ClearTimeout (Some 0), BatchVectorize [example_queue ! 0]]\<rparr>) \<and>
   \<not> priv_processing (example_world\<lparr>priv_queue := example_queue, priv_timeout := Some 0\<rparr>) \<and>
   1 < length (priv_queue (example_world\<lparr>priv_queue := example_queue, priv_timeout := Some 0\<rparr>)) \<and>
   on_fast_expiry (example_world\<lparr>priv_queue := example_queue, priv_timeout := Some 0\<rparr>) =
     (None, example_world\<lparr>priv_queue := example_queue, priv_timeout := Some 0, timers := Suc 0,
        trace := [SetTimeout 0 WaitExpiry 90]\<rparr>) \<and>
   on_wait_expiry (example_world\<lparr>priv_queue := example_queue, priv_timeout := Some 0, priv_processing := True\<rparr>) =
     (Some example_queue,
      example_world\<lparr>priv_queue := [], priv_timeout := None, priv_processing := True,
        trace := [ClearTimeout (Some 0), BatchVectorize example_queue]\<rparr>)"
  using
    debounce_state_machine [of example_world example_rt "JStr ''hello''"]
    debounce_state_machine [of "example_world\<lparr>priv_processing := True\<rparr>" example_rt "JStr ''hello''"]
    debounce_state_machine [of "example_world\<lparr>priv_queue := [example_queue ! 0], priv_timeout := Some 0\<rparr>"
      example_rt "JStr ''hello''"]
    debounce_state_machine [of "example_world\<lparr>priv_queue := example_queue, priv_timeout := Some 0\<rparr>"
      example_rt "JStr ''hello''"]
    debounce_state_machine [of "example_world\<lparr>priv_queue := example_queue, priv_timeout := Some 0,
      priv_processing := True\<rparr>" example_rt "JStr ''hello''"]
  by (simp add: example_defs)

text \<open>
  C8. Engine-not-configured error: whatever the value, \<open>create\<close> on a manager with no
  engine set throws an Error whose message says that no vector engine has been set;
  no request is enqueued, no timer started, no field of the manager changed and nothing
  done to the outside: the only effect is the allocation of the Error object.
\<close>

theorem engine_not_configured:
  assumes "priv_vectorize st = None"
  shows
    "fst (create_begin R v st) =
       Inl (Throw (JError (Own (heap st))
         (''Could not vectorize: no vector engine has been set.'' @ [CHR 0x0A] @
          ''Use Instant.Vectors.setEngine(fn) to enable.''))) \<and>
     snd (create_begin R v st) = st\<lparr>heap := Suc (heap st)\<rparr> \<and>
     manager.truncate (snd (create_begin R v st)) = manager.truncate st \<and>
     priv_queue (snd (create_begin R v st)) = priv_queue st \<and>
     trace (snd (create_begin R v st)) = trace st"
  using assms
  by (simp add: create_begin_def alloc_Error_def no_engine_message_def manager.truncate_def)

theorem engine_not_configured_witness:
  "priv_vectorize initialize = None \<and>
   fst (create_begin example_rt (JStr ''I am extremely happy'') initialize) =
     Inl (Throw (JError (Own 0)
       (''Could not vectorize: no vector engine has been set.'' @ [CHR 0x0A] @
        ''Use Instant.Vectors.setEngine(fn) to enable.''))) \<and>
   snd (create_begin example_rt (JStr ''I am extremely happy'') initialize) = initialize\<lparr>heap := Suc 0\<rparr> \<and>
   priv_queue (snd (create_begin example_rt (JStr ''I am extremely happy'') initialize)) = []"
proof -
  have none: "priv_vectorize initialize = None" by (simp add: initialize_def)
  from engine_not_configured [OF none, of example_rt "JStr ''I am extremely happy''"] none
  show ?thesis by (simp add: initialize_def)
qed

end
